theory Spec2Isabelle
  imports Main "HOL-Library.Sublist"
begin

section \<open>Text\<close>

text \<open>
  The handlers work on ECMAScript strings. A string is modelled as a \<^typ>\<open>string\<close>, read as
  a sequence of code units in the range U+0000 to U+00FF. The upstream body is taken after
  \<^verbatim>\<open>TextDecoder.decode(value, {stream: true})\<close>: a chunk is the text of one read.
\<close>

definition newline :: char where
  "newline = CHR 0x0A"

definition dquote :: char where
  "dquote = CHR 0x22"

definition backslash :: char where
  "backslash = CHR 0x5C"

text \<open>White space and line terminators of ECMAScript below U+0100, as \<^verbatim>\<open>trim\<close> and
  the regular expression class \<^verbatim>\<open>\s\<close> use them: TAB, LF, VT, FF, CR, SP, NBSP.\<close>

definition isWhiteSpace :: "char \<Rightarrow> bool" where
  "isWhiteSpace c \<longleftrightarrow> c \<in> set [CHR 0x09, CHR 0x0A, CHR 0x0B, CHR 0x0C, CHR 0x0D, CHR 0x20, CHR 0xA0]"

text \<open>\<^verbatim>\<open>s.trim()\<close>\<close>

definition trim :: "string \<Rightarrow> string" where
  "trim s = rev (dropWhile isWhiteSpace (rev (dropWhile isWhiteSpace s)))"

text \<open>\<^verbatim>\<open>s.startsWith(p)\<close>\<close>

definition startsWith :: "string \<Rightarrow> string \<Rightarrow> bool" where
  "startsWith s p \<longleftrightarrow> prefix p s"

text \<open>\<^verbatim>\<open>s.slice(n)\<close> for a non-negative \<open>n\<close>\<close>

definition slice :: "string \<Rightarrow> nat \<Rightarrow> string" where
  "slice s n = drop n s"

text \<open>\<^verbatim>\<open>s.includes(t)\<close>\<close>

fun includes_str :: "string \<Rightarrow> string \<Rightarrow> bool" where
  "includes_str [] t \<longleftrightarrow> t = []"
| "includes_str (c # cs) t \<longleftrightarrow> prefix t (c # cs) \<or> includes_str cs t"

text \<open>\<^verbatim>\<open>s.split(sep)\<close> for a non-empty separator (both call sites pass one: the line
  feed and the date token): the pieces between the occurrences of \<open>sep\<close>, found from the
  left, an occurrence starting where the previous one ended at the earliest.\<close>

function split_str :: "string \<Rightarrow> string \<Rightarrow> string list" where
  "split_str [] sep = [[]]"
| "split_str (c # cs) sep =
     (if sep \<noteq> [] \<and> prefix sep (c # cs)
      then [] # split_str (drop (length sep) (c # cs)) sep
      else (case split_str cs sep of
              [] \<Rightarrow> [[c]]
            | piece # pieces \<Rightarrow> (c # piece) # pieces))"
  by pat_completeness auto
termination
  by (relation "measure (\<lambda>(s, sep). length s)") (auto simp: neq_Nil_conv)

text \<open>\<^verbatim>\<open>pieces.join(sep)\<close>\<close>

fun join_str :: "string list \<Rightarrow> string \<Rightarrow> string" where
  "join_str [] sep = []"
| "join_str [p] sep = p"
| "join_str (p # q # ps) sep = p @ sep @ join_str (q # ps) sep"

text \<open>\<^verbatim>\<open>GetSubstitution\<close> of ECMA-262 for a string pattern, which has no captures: in
  the replacement text \<^verbatim>\<open>$$\<close> stands for a dollar sign, \<^verbatim>\<open>$&\<close> for the matched text,
  \<^verbatim>\<open>$`\<close> for the text before the match and \<^verbatim>\<open>$'\<close> for the text after it; any other
  use of \<^verbatim>\<open>$\<close> is kept as it is.\<close>

fun getSubstitution :: "string \<Rightarrow> string \<Rightarrow> string \<Rightarrow> string \<Rightarrow> string" where
  "getSubstitution matched preceding following [] = []"
| "getSubstitution matched preceding following [c] = [c]"
| "getSubstitution matched preceding following (c # d # r) =
     (if c = CHR ''$'' then
        (if d = CHR ''$'' then CHR ''$'' # getSubstitution matched preceding following r
         else if d = CHR ''&'' then matched @ getSubstitution matched preceding following r
         else if d = CHR 0x60 then preceding @ getSubstitution matched preceding following r
         else if d = CHR 0x27 then following @ getSubstitution matched preceding following r
         else CHR ''$'' # getSubstitution matched preceding following (d # r))
      else c # getSubstitution matched preceding following (d # r))"

text \<open>\<^verbatim>\<open>s.replaceAll(t, v)\<close> for a non-empty search string \<open>t\<close>: the occurrences are
  found as by \<^verbatim>\<open>split\<close>, and each is replaced by the substitution of \<open>v\<close> at its place.
  \<open>preceding\<close> is the part of the text already passed.\<close>

function replaceAllFrom :: "string \<Rightarrow> string \<Rightarrow> string \<Rightarrow> string \<Rightarrow> string" where
  "replaceAllFrom preceding [] t v = []"
| "replaceAllFrom preceding (c # cs) t v =
     (if t \<noteq> [] \<and> prefix t (c # cs)
      then getSubstitution t preceding (drop (length t) (c # cs)) v
           @ replaceAllFrom (preceding @ t) (drop (length t) (c # cs)) t v
      else c # replaceAllFrom (preceding @ [c]) cs t v)"
  by pat_completeness auto
termination
  by (relation "measure (\<lambda>(preceding, s, t, v). length s)") (auto simp: neq_Nil_conv)

definition replaceAll :: "string \<Rightarrow> string \<Rightarrow> string \<Rightarrow> string" where
  "replaceAll s t v = replaceAllFrom [] s t v"

section \<open>JSON values\<close>

text \<open>
  A value produced by \<^verbatim>\<open>JSON.parse\<close>. A number is held as its \<^verbatim>\<open>Number::toString\<close>
  text (\<open>0\<close> for both zeros, \<open>Infinity\<close> and \<open>-Infinity\<close> for what \<^verbatim>\<open>JSON.parse\<close> makes
  of a literal out of range such as \<^verbatim>\<open>1e999\<close>), which decides what \<^verbatim>\<open>JSON.stringify\<close>
  prints and its truthiness. An object is its list of own properties, keys distinct, in the order
  in which the object enumerates them. \<open>None\<close> of type \<open>json option\<close> is
  \<^verbatim>\<open>undefined\<close>.
\<close>

datatype json =
    JNull
  | JBool bool
  | JNumber string
  | JString string
  | JArray "json list"
  | JObject "(string \<times> json) list"

definition hexDigit :: "nat \<Rightarrow> char" where
  "hexDigit n = (''0123456789abcdef'') ! (n mod 16)"

text \<open>\<^verbatim>\<open>QuoteJSONString\<close> of ECMA-262, one code unit at a time.\<close>

definition escapeChar :: "char \<Rightarrow> string" where
  "escapeChar c =
     (if c = CHR 0x08 then [backslash, CHR ''b'']
      else if c = CHR 0x09 then [backslash, CHR ''t'']
      else if c = CHR 0x0A then [backslash, CHR ''n'']
      else if c = CHR 0x0C then [backslash, CHR ''f'']
      else if c = CHR 0x0D then [backslash, CHR ''r'']
      else if c = dquote then [backslash, dquote]
      else if c = backslash then [backslash, backslash]
      else if (of_char c :: nat) < 32
        then [backslash, CHR ''u'', CHR ''0'', CHR ''0'',
              hexDigit ((of_char c :: nat) div 16), hexDigit (of_char c :: nat)]
      else [c])"

definition quoteJSON :: "string \<Rightarrow> string" where
  "quoteJSON s = [dquote] @ concat (map escapeChar s) @ [dquote]"

text \<open>A number that is not finite.\<close>

definition nonFinite :: "string \<Rightarrow> bool" where
  "nonFinite t \<longleftrightarrow> t = ''Infinity'' \<or> t = ''-Infinity'' \<or> t = ''NaN''"

text \<open>\<^verbatim>\<open>JSON.stringify(value)\<close> with no indentation. A finite number is printed as its
  text, any other number as \<^verbatim>\<open>null\<close>.\<close>

fun stringify :: "json \<Rightarrow> string" where
  "stringify JNull = ''null''"
| "stringify (JBool b) = (if b then ''true'' else ''false'')"
| "stringify (JNumber t) = (if nonFinite t then ''null'' else t)"
| "stringify (JString s) = quoteJSON s"
| "stringify (JArray xs) = ''['' @ join_str (map stringify xs) '','' @ '']''"
| "stringify (JObject kvs) =
     ''{'' @ join_str (map (\<lambda>(k, v). quoteJSON k @ '':'' @ stringify v) kvs) '','' @ ''}''"

text \<open>\<^verbatim>\<open>value?.name\<close> for a name that is no array index, not \<^verbatim>\<open>length\<close> and no member of
  a built-in prototype (the handlers read \<^verbatim>\<open>choices\<close>, \<^verbatim>\<open>delta\<close>, \<^verbatim>\<open>content\<close>,
  \<^verbatim>\<open>messages\<close> and \<^verbatim>\<open>model\<close>): only an object has such a property.\<close>

fun getProp :: "json option \<Rightarrow> string \<Rightarrow> json option" where
  "getProp (Some (JObject kvs)) name = map_of kvs name"
| "getProp _ name = None"

text \<open>\<^verbatim>\<open>value?.[0]\<close>\<close>

fun index0 :: "json option \<Rightarrow> json option" where
  "index0 (Some (JObject kvs)) = map_of kvs ''0''"
| "index0 (Some (JArray xs)) = (case xs of [] \<Rightarrow> None | x # _ \<Rightarrow> Some x)"
| "index0 (Some (JString s)) = (case s of [] \<Rightarrow> None | c # _ \<Rightarrow> Some (JString [c]))"
| "index0 _ = None"

text \<open>\<^verbatim>\<open>a ?? b\<close>\<close>

definition nullish :: "json option \<Rightarrow> json option \<Rightarrow> json option" where
  "nullish a b = (case a of None \<Rightarrow> b | Some JNull \<Rightarrow> b | Some v \<Rightarrow> Some v)"

section \<open>Frames\<close>

text \<open>\<^verbatim>\<open>sseLine(data)\<close>: a string is written as it is, anything else through
  \<^verbatim>\<open>JSON.stringify\<close>.\<close>

definition sseLine :: "json \<Rightarrow> string" where
  "sseLine data =
     ''data: '' @ (case data of JString s \<Rightarrow> s | _ \<Rightarrow> stringify data) @ [newline, newline]"

definition doneFrame :: string where
  "doneFrame = sseLine (JString ''[DONE]'')"

definition dateToken :: string where
  "dateToken = ''[DATE_PLUS_7]''"

section \<open>The relay\<close>

text \<open>The repository holds two variants of the handler: \<^verbatim>\<open>api/chat.ts\<close> and a second,
  later file.\<close>

datatype variant = ChatTs | Part000

text \<open>\<^verbatim>\<open>delta.includes(dateToken) ? ... : delta\<close>: the first variant substitutes with
  \<^verbatim>\<open>split\<close> and \<^verbatim>\<open>join\<close>, the second with \<^verbatim>\<open>replaceAll\<close>.\<close>

definition patched :: "variant \<Rightarrow> string \<Rightarrow> string \<Rightarrow> string" where
  "patched v delta dateValue =
     (if includes_str delta dateToken
      then (case v of
              ChatTs \<Rightarrow> join_str (split_str delta dateToken) dateValue
            | Part000 \<Rightarrow> replaceAll delta dateToken dateValue)
      else delta)"

text \<open>\<^verbatim>\<open>json?.choices?.[0]?.delta?.content ?? json?.delta\<close>\<close>

definition extractDelta :: "json \<Rightarrow> json option" where
  "extractDelta json =
     nullish (getProp (getProp (index0 (getProp (Some json) ''choices'')) ''delta'') ''content'')
             (getProp (Some json) ''delta'')"

definition deltaFrame :: "variant \<Rightarrow> string \<Rightarrow> string \<Rightarrow> string" where
  "deltaFrame v delta dateValue = sseLine (JObject [(''delta'', JString (patched v delta dateValue))])"

text \<open>The \<^verbatim>\<open>else\<close> branch of the loop body: only the first variant has one.\<close>

fun otherShape :: "variant \<Rightarrow> json \<Rightarrow> string list" where
  "otherShape ChatTs json = [sseLine json]"
| "otherShape Part000 json = []"

text \<open>The body of \<^verbatim>\<open>for (const line of lines)\<close>: the frames written for one line.
  \<open>parse\<close> is \<^verbatim>\<open>JSON.parse\<close>, with \<open>None\<close> for a thrown SyntaxError.\<close>

definition lineFrames :: "variant \<Rightarrow> (string \<Rightarrow> json option) \<Rightarrow> string \<Rightarrow> string \<Rightarrow> string list" where
  "lineFrames v parse dateValue line =
     (if \<not> startsWith line ''data:'' then []
      else let data = trim (slice line 5) in
        if data = ''[DONE]'' then [sseLine (JString ''[DONE]'')]
        else (case parse data of
                None \<Rightarrow> []
              | Some json \<Rightarrow>
                  (case extractDelta json of
                     Some (JString delta) \<Rightarrow>
                       if delta \<noteq> [] then [deltaFrame v delta dateValue] else otherShape v json
                   | _ \<Rightarrow> otherShape v json)))"

text \<open>The block after the loop, \<^verbatim>\<open>if (buffer.length) { ... }\<close>.\<close>

definition flushFrames :: "variant \<Rightarrow> (string \<Rightarrow> json option) \<Rightarrow> string \<Rightarrow> string \<Rightarrow> string list" where
  "flushFrames v parse dateValue buffer =
     (if buffer = [] then []
      else (case parse buffer of
              None \<Rightarrow> []
            | Some json \<Rightarrow>
                (case extractDelta json of
                   Some (JString delta) \<Rightarrow> if delta \<noteq> [] then [deltaFrame v delta dateValue] else []
                 | _ \<Rightarrow> [])))"

text \<open>\<^verbatim>\<open>lines.pop() || ""\<close>\<close>

definition popLine :: "string list \<Rightarrow> string" where
  "popLine lines = (if lines = [] then [] else last lines)"

text \<open>The read loop, run on the chunks the upstream body delivers until it is done, and
  what follows it up to \<^verbatim>\<open>writer.close()\<close>. The result is the sequence of frames
  written, in order.\<close>

fun relayLoop :: "variant \<Rightarrow> (string \<Rightarrow> json option) \<Rightarrow> string \<Rightarrow> string \<Rightarrow> string list \<Rightarrow> string list" where
  "relayLoop v parse dateValue buffer [] =
     flushFrames v parse dateValue buffer @ [sseLine (JString ''[DONE]'')]"
| "relayLoop v parse dateValue buffer (chunk # chunks) =
     (let lines = split_str (buffer @ chunk) [newline]
      in concat (map (lineFrames v parse dateValue) (butlast lines))
         @ relayLoop v parse dateValue (popLine lines) chunks)"

definition relay :: "variant \<Rightarrow> (string \<Rightarrow> json option) \<Rightarrow> string \<Rightarrow> string list \<Rightarrow> string list" where
  "relay v parse dateValue chunks = relayLoop v parse dateValue [] chunks"

section \<open>The shortcut patterns\<close>

text \<open>\<^verbatim>\<open>s.toLowerCase()\<close> on code units below U+0100: the letters A to Z and the
  capital letters of Latin-1 (U+00C0 to U+00DE, the multiplication sign U+00D7 apart)
  move up by 32.\<close>

definition toLowerChar :: "char \<Rightarrow> char" where
  "toLowerChar c =
     (let n = (of_char c :: nat)
      in if (65 \<le> n \<and> n \<le> 90) \<or> (192 \<le> n \<and> n \<le> 222 \<and> n \<noteq> 215)
         then char_of (n + 32) else c)"

definition toLowerCase :: "string \<Rightarrow> string" where
  "toLowerCase s = map toLowerChar s"

text \<open>
  The regular expressions of the handlers are alternatives of sequences of pattern
  characters, \<^verbatim>\<open>\s\<close> and \<^verbatim>\<open>.\<close>, each taken once or under \<^verbatim>\<open>+\<close> or \<^verbatim>\<open>*\<close>.
  All carry the flag \<^verbatim>\<open>i\<close>: a pattern character (here always a letter a to z)
  matches the code unit with the same canonical form, which is the upper case letter.
\<close>

datatype atom = Lit char | Space | Dot

datatype item = One atom | Plus atom | Star atom

type_synonym regex = "item list list"

definition canonicalize :: "char \<Rightarrow> char" where
  "canonicalize c =
     (let n = (of_char c :: nat) in if 97 \<le> n \<and> n \<le> 122 then char_of (n - 32) else c)"

text \<open>\<^verbatim>\<open>.\<close> matches every code unit but a line terminator.\<close>

fun atomMatches :: "atom \<Rightarrow> char \<Rightarrow> bool" where
  "atomMatches (Lit p) c \<longleftrightarrow> canonicalize c = canonicalize p"
| "atomMatches Space c \<longleftrightarrow> isWhiteSpace c"
| "atomMatches Dot c \<longleftrightarrow> c \<noteq> CHR 0x0A \<and> c \<noteq> CHR 0x0D"

text \<open>Whether a sequence of items matches some prefix of the text.\<close>

fun matchItems :: "item list \<Rightarrow> string \<Rightarrow> bool" where
  "matchItems [] s \<longleftrightarrow> True"
| "matchItems (One a # r) [] \<longleftrightarrow> False"
| "matchItems (One a # r) (c # cs) \<longleftrightarrow> atomMatches a c \<and> matchItems r cs"
| "matchItems (Plus a # r) [] \<longleftrightarrow> False"
| "matchItems (Plus a # r) (c # cs) \<longleftrightarrow> atomMatches a c \<and> matchItems (Star a # r) cs"
| "matchItems (Star a # r) [] \<longleftrightarrow> matchItems r []"
| "matchItems (Star a # r) (c # cs) \<longleftrightarrow>
     matchItems r (c # cs) \<or> (atomMatches a c \<and> matchItems (Star a # r) cs)"

fun matchAlternatives :: "regex \<Rightarrow> string \<Rightarrow> bool" where
  "matchAlternatives [] s \<longleftrightarrow> False"
| "matchAlternatives (alt # alts) s \<longleftrightarrow> matchItems alt s \<or> matchAlternatives alts s"

text \<open>\<^verbatim>\<open>regex.test(s)\<close>: a match may start at any position.\<close>

fun test :: "regex \<Rightarrow> string \<Rightarrow> bool" where
  "test rx [] \<longleftrightarrow> matchAlternatives rx []"
| "test rx (c # cs) \<longleftrightarrow> matchAlternatives rx (c # cs) \<or> test rx cs"

definition lit :: "string \<Rightarrow> item list" where
  "lit s = map (\<lambda>c. One (Lit c)) s"

text \<open>\<^verbatim>\<open>/(how\s+long|time\s*line|how\s+much\s+time|when.*ready)/i\<close> in the first variant,
  \<^verbatim>\<open>/(how\s+long|timeline|how\s+much\s+time|when.*ready)/i\<close> in the second.\<close>

fun faqTimePattern :: "variant \<Rightarrow> regex" where
  "faqTimePattern ChatTs =
     [lit ''how'' @ [Plus Space] @ lit ''long'',
      lit ''time'' @ [Star Space] @ lit ''line'',
      lit ''how'' @ [Plus Space] @ lit ''much'' @ [Plus Space] @ lit ''time'',
      lit ''when'' @ [Star Dot] @ lit ''ready'']"
| "faqTimePattern Part000 =
     [lit ''how'' @ [Plus Space] @ lit ''long'',
      lit ''timeline'',
      lit ''how'' @ [Plus Space] @ lit ''much'' @ [Plus Space] @ lit ''time'',
      lit ''when'' @ [Star Dot] @ lit ''ready'']"

text \<open>\<^verbatim>\<open>/(how\s+much|price|pricing|cost|costs|license\s*fee|installation\s*cost)/i\<close> in the
  first variant, \<^verbatim>\<open>/(how\s+much|price|pricing|cost|license|installation)/i\<close> in the
  second.\<close>

fun faqCostPattern :: "variant \<Rightarrow> regex" where
  "faqCostPattern ChatTs =
     [lit ''how'' @ [Plus Space] @ lit ''much'',
      lit ''price'',
      lit ''pricing'',
      lit ''cost'',
      lit ''costs'',
      lit ''license'' @ [Star Space] @ lit ''fee'',
      lit ''installation'' @ [Star Space] @ lit ''cost'']"
| "faqCostPattern Part000 =
     [lit ''how'' @ [Plus Space] @ lit ''much'',
      lit ''price'',
      lit ''pricing'',
      lit ''cost'',
      lit ''license'',
      lit ''installation'']"

text \<open>\<^verbatim>\<open>/(how.*see|how.*going|how.*track|how.*watch)/i\<close>, in the second variant only.\<close>

definition faqVisibilityPattern :: regex where
  "faqVisibilityPattern =
     [lit ''how'' @ [Star Dot] @ lit ''see'',
      lit ''how'' @ [Star Dot] @ lit ''going'',
      lit ''how'' @ [Star Dot] @ lit ''track'',
      lit ''how'' @ [Star Dot] @ lit ''watch'']"

definition faqTime :: "variant \<Rightarrow> string \<Rightarrow> bool" where
  "faqTime v last_text = test (faqTimePattern v) last_text"

definition faqCost :: "variant \<Rightarrow> string \<Rightarrow> bool" where
  "faqCost v last_text = test (faqCostPattern v) last_text"

fun faqVisibility :: "variant \<Rightarrow> string \<Rightarrow> bool" where
  "faqVisibility ChatTs last_text = False"
| "faqVisibility Part000 last_text = test faqVisibilityPattern last_text"

section \<open>The handler\<close>

text \<open>
  The prompt and the canned answers are string constants of the two files. They hold
  characters beyond U+00FF (dashes, a typographic apostrophe, a bullet), so they are
  fields of a record here, one record for each variant.
\<close>

record content =
  SYSTEM_PROMPT :: string
  timeText :: string
  costText :: string
  visibilityText :: string

text \<open>The answer of the FAQ shortcut, if one of the patterns matches:
  \<^verbatim>\<open>faqTime ? ... : faqCost ? ... : ...\<close>\<close>

definition faqText :: "variant \<Rightarrow> content \<Rightarrow> string \<Rightarrow> string option" where
  "faqText v txt last_text =
     (if faqTime v last_text \<or> faqCost v last_text \<or> faqVisibility v last_text
      then Some (if faqTime v last_text then timeText txt
                 else if faqCost v last_text then costText txt
                 else visibilityText txt)
      else None)"

text \<open>Truthiness of a value, as \<^verbatim>\<open>||\<close> tests it.\<close>

fun truthy :: "json option \<Rightarrow> bool" where
  "truthy None \<longleftrightarrow> False"
| "truthy (Some JNull) \<longleftrightarrow> False"
| "truthy (Some (JBool b)) \<longleftrightarrow> b"
| "truthy (Some (JNumber t)) \<longleftrightarrow> t \<noteq> ''0'' \<and> t \<noteq> ''NaN''"
| "truthy (Some (JString s)) \<longleftrightarrow> s \<noteq> []"
| "truthy (Some (JArray xs)) \<longleftrightarrow> True"
| "truthy (Some (JObject kvs)) \<longleftrightarrow> True"

datatype error = TypeError | FetchRejected

text \<open>\<^verbatim>\<open>messages[messages.length - 1]\<close>\<close>

definition lastMessage :: "json list \<Rightarrow> json option" where
  "lastMessage messages = (if messages = [] then None else Some (last messages))"

text \<open>\<^verbatim>\<open>(messages[messages.length - 1]?.content || "").toLowerCase()\<close>: a truthy content
  that is no string has no method \<^verbatim>\<open>toLowerCase\<close>, and the call throws.\<close>

definition lastText :: "json list \<Rightarrow> error + string" where
  "lastText messages =
     (let c = getProp (lastMessage messages) ''content''
      in if truthy c
         then (case c of Some (JString s) \<Rightarrow> Inr (toLowerCase s) | _ \<Rightarrow> Inl TypeError)
         else Inr (toLowerCase []))"

datatype body = Text string | Stream "string list"

record response =
  status :: nat
  headers :: "(string \<times> string) list"
  body :: body

definition sseHeaders :: "(string \<times> string) list" where
  "sseHeaders =
     [(''Content-Type'', ''text/event-stream; charset=utf-8''),
      (''Cache-Control'', ''no-cache, no-transform''),
      (''Connection'', ''keep-alive'')]"

text \<open>\<^verbatim>\<open>new Response(text, { status })\<close> and \<^verbatim>\<open>new Response(stream, { headers: sseHeaders() })\<close>;
  a stream is given by the frames enqueued or written before it is closed.\<close>

definition textResponse :: "nat \<Rightarrow> string \<Rightarrow> response" where
  "textResponse code text = \<lparr>status = code, headers = [], body = Text text\<rparr>"

definition streamResponse :: "string list \<Rightarrow> response" where
  "streamResponse frames = \<lparr>status = 200, headers = sseHeaders, body = Stream frames\<rparr>"

text \<open>The request as the handler reads it: \<open>reqMethod\<close> is \<^verbatim>\<open>req.method\<close>, \<open>jsonBody\<close> the result of \<^verbatim>\<open>req.json()\<close>, \<open>None\<close>
  when it rejects.\<close>

record request =
  reqMethod :: string
  jsonBody :: "json option"

text \<open>The arguments of \<^verbatim>\<open>fetch\<close>: the address, the method, the two headers and the
  body, which is the text \<^verbatim>\<open>JSON.stringify(payload)\<close>.\<close>

record fetchCall =
  url :: string
  fetchMethod :: string
  authorization :: string
  contentType :: string
  sentBody :: string

text \<open>What \<^verbatim>\<open>fetch\<close> resolves to: \<open>chunks\<close> is the decoded text of the reads of
  \<^verbatim>\<open>upstream.body\<close> until it is done (\<open>None\<close> when there is no body), \<open>errorText\<close> the result
  of \<^verbatim>\<open>upstream.text()\<close> (\<open>None\<close> when it rejects).\<close>

record upstream =
  ok :: bool
  chunks :: "string list option"
  errorText :: "string option"

text \<open>What a request meets outside the handler: the environment variable, \<^verbatim>\<open>JSON.parse\<close>,
  the completion API behind \<^verbatim>\<open>fetch\<close> (\<open>None\<close> when the promise rejects) and the text
  that \<^verbatim>\<open>computeDatePlus7London()\<close> returns at this moment.\<close>

record world =
  OPENAI_API_KEY :: "string option"
  JSON_parse :: "string \<Rightarrow> json option"
  fetch :: "fetchCall \<Rightarrow> upstream option"
  computeDatePlus7London :: string

definition systemTurn :: "content \<Rightarrow> json" where
  "systemTurn txt = JObject [(''role'', JString ''system''), (''content'', JString (SYSTEM_PROMPT txt))]"

text \<open>\<^verbatim>\<open>Array.isArray(body?.messages) ? body.messages : []\<close>\<close>

definition messagesOf :: "json \<Rightarrow> json list" where
  "messagesOf b = (case getProp (Some b) ''messages'' of Some (JArray ms) \<Rightarrow> ms | _ \<Rightarrow> [])"

text \<open>\<^verbatim>\<open>body?.model || "gpt-4o-mini"\<close>\<close>

definition modelOf :: "json \<Rightarrow> json" where
  "modelOf b =
     (case getProp (Some b) ''model'' of
        Some m \<Rightarrow> if truthy (Some m) then m else JString ''gpt-4o-mini''
      | None \<Rightarrow> JString ''gpt-4o-mini'')"

text \<open>\<^verbatim>\<open>const payload = { model, stream: true, messages: [{ role: "system", content:
  SYSTEM_PROMPT }, ...messages] }\<close>\<close>

definition buildPayload :: "content \<Rightarrow> json \<Rightarrow> json list \<Rightarrow> json" where
  "buildPayload txt model messages =
     JObject [(''model'', model), (''stream'', JBool True),
              (''messages'', JArray (systemTurn txt # messages))]"

definition buildCall :: "content \<Rightarrow> string \<Rightarrow> json \<Rightarrow> json list \<Rightarrow> fetchCall" where
  "buildCall txt apiKey model messages =
     \<lparr>url = ''https://api.openai.com/v1/chat/completions'',
      fetchMethod = ''POST'',
      authorization = ''Bearer '' @ apiKey,
      contentType = ''application/json'',
      sentBody = stringify (buildPayload txt model messages)\<rparr>"

text \<open>The part of the handler after \<^verbatim>\<open>fetch\<close> has resolved.\<close>

definition relayResponse :: "variant \<Rightarrow> world \<Rightarrow> upstream \<Rightarrow> response" where
  "relayResponse v w up =
     (case (ok up, chunks up) of
        (True, Some cs) \<Rightarrow> streamResponse (relay v (JSON_parse w) (computeDatePlus7London w) cs)
      | _ \<Rightarrow> textResponse 502 (case errorText up of None \<Rightarrow> ''Upstream error'' | Some t \<Rightarrow> t))"

text \<open>The part of the handler from the FAQ shortcut on, for the parsed body \<open>b\<close>.\<close>

definition answer :: "variant \<Rightarrow> content \<Rightarrow> world \<Rightarrow> string \<Rightarrow> json \<Rightarrow> (error + response) \<times> fetchCall list" where
  "answer v txt w apiKey b =
     (case lastText (messagesOf b) of
        Inl e \<Rightarrow> (Inl e, [])
      | Inr last_text \<Rightarrow>
          (case faqText v txt last_text of
             Some text \<Rightarrow>
               (Inr (streamResponse
                       [sseLine (JObject [(''delta'', JString text)]),
                        sseLine (JString ''[DONE]'')]), [])
           | None \<Rightarrow>
               (let call = buildCall txt apiKey (modelOf b) (messagesOf b)
                in case fetch w call of
                     None \<Rightarrow> (Inl FetchRejected, [call])
                   | Some up \<Rightarrow> (Inr (relayResponse v w up), [call]))))"

text \<open>The handler: its result, an exception or the response, and the calls of \<^verbatim>\<open>fetch\<close>
  it made.\<close>

definition handler :: "variant \<Rightarrow> content \<Rightarrow> world \<Rightarrow> request \<Rightarrow> (error + response) \<times> fetchCall list" where
  "handler v txt w req =
     (if reqMethod req \<noteq> ''POST'' then (Inr (textResponse 405 ''Only POST''), [])
      else (case OPENAI_API_KEY w of
              None \<Rightarrow> (Inr (textResponse 500 ''Missing OPENAI_API_KEY''), [])
            | Some apiKey \<Rightarrow>
                if apiKey = [] then (Inr (textResponse 500 ''Missing OPENAI_API_KEY''), [])
                else answer v txt w apiKey
                       (case jsonBody req of None \<Rightarrow> JObject [] | Some parsed \<Rightarrow> parsed)))"

section \<open>Notions used in the statements\<close>

text \<open>The text of an upstream body made of the complete lines \<open>ls\<close>, each closed by a
  line feed, and the unterminated rest \<open>r\<close>.\<close>

definition upstreamText :: "string list \<Rightarrow> string \<Rightarrow> string" where
  "upstreamText ls r = concat (map (\<lambda>l. l @ [newline]) ls) @ r"

text \<open>The complete lines of a text and what is left after the last line feed.\<close>

definition completeLines :: "string \<Rightarrow> string list" where
  "completeLines text = butlast (split_str text [newline])"

definition residual :: "string \<Rightarrow> string" where
  "residual text = popLine (split_str text [newline])"

text \<open>A line that is the terminal marker of the upstream.\<close>

definition isDoneLine :: "string \<Rightarrow> bool" where
  "isDoneLine line \<longleftrightarrow> startsWith line ''data:'' \<and> trim (slice line 5) = ''[DONE]''"

text \<open>The test of the loop body and of the flush block,
  \<^verbatim>\<open>typeof delta === "string" && delta.length\<close>, on the value that
  \<^verbatim>\<open>json?.choices?.[0]?.delta?.content ?? json?.delta\<close> extracts.\<close>

definition passesDeltaTest :: "json \<Rightarrow> bool" where
  "passesDeltaTest json =
     (case extractDelta json of Some (JString delta) \<Rightarrow> delta \<noteq> [] | _ \<Rightarrow> False)"

text \<open>A line for which the loop body comes to its last branch, where the first variant
  calls \<^verbatim>\<open>sseLine(json)\<close> and the second does nothing: a \<^verbatim>\<open>data:\<close> line, not the
  terminal marker, whose payload parses to a value that does not pass the test.\<close>

definition otherShapeLine :: "(string \<Rightarrow> json option) \<Rightarrow> string \<Rightarrow> bool" where
  "otherShapeLine parse line =
     (if startsWith line ''data:'' \<and> trim (slice line 5) \<noteq> ''[DONE]''
      then (case parse (trim (slice line 5)) of
              None \<Rightarrow> False
            | Some json \<Rightarrow> \<not> passesDeltaTest json)
      else False)"

text \<open>The two places of a delta, by themselves: \<^verbatim>\<open>choices[0].delta.content\<close> and the flat
  field \<^verbatim>\<open>delta\<close>.\<close>

definition nestedDelta :: "json \<Rightarrow> json option" where
  "nestedDelta json = getProp (getProp (index0 (getProp (Some json) ''choices'')) ''delta'') ''content''"

definition flatDelta :: "json \<Rightarrow> json option" where
  "flatDelta json = getProp (Some json) ''delta''"

fun nonEmptyString :: "json option \<Rightarrow> bool" where
  "nonEmptyString (Some (JString s)) \<longleftrightarrow> s \<noteq> []"
| "nonEmptyString _ \<longleftrightarrow> False"

text \<open>The wording of the specification, ``JSON carrying a non-empty string delta (in
  \<^verbatim>\<open>choices[0].delta.content\<close> or the flat \<^verbatim>\<open>delta\<close> field)'', taken by the letter: one
  of the two places holds a non-empty string. The code's test is narrower where the first
  place holds a value that is neither \<^verbatim>\<open>null\<close> nor \<^verbatim>\<open>undefined\<close>: that value is taken
  and the flat field is not looked at.\<close>

definition carriesDelta :: "json \<Rightarrow> bool" where
  "carriesDelta json \<longleftrightarrow> nonEmptyString (nestedDelta json) \<or> nonEmptyString (flatDelta json)"

text \<open>A line for which the loop body either does not reach \<^verbatim>\<open>JSON.parse\<close>, or has it
  throw, or (in the second variant) finds no delta in the value.\<close>

definition skippedLine :: "variant \<Rightarrow> (string \<Rightarrow> json option) \<Rightarrow> string \<Rightarrow> bool" where
  "skippedLine v parse line =
     (if \<not> startsWith line ''data:'' then True
      else if trim (slice line 5) = ''[DONE]'' then False
      else (case parse (trim (slice line 5)) of
              None \<Rightarrow> True
            | Some json \<Rightarrow> v = Part000 \<and> \<not> passesDeltaTest json))"

section \<open>Sample data\<close>

text \<open>\<^verbatim>\<open>JSON.parse\<close> on the texts that the examples below give to it: each of the listed
  texts has the value that \<^verbatim>\<open>JSON.parse\<close> returns for it, and no other text that an
  example passes is JSON.\<close>

definition sampleParse :: "string \<Rightarrow> json option" where
  \<open>sampleParse s =
     (if s = ''{"delta":"book by [DATE_PLUS_7] now"}''
        then Some (JObject [(''delta'', JString ''book by [DATE_PLUS_7] now'')])
      else if s = ''{"choices":[{"delta":{"content":"Hi"}}]}''
        then Some (JObject [(''choices'',
               JArray [JObject [(''delta'', JObject [(''content'', JString ''Hi'')])]])])
      else if s = ''{"delta":"Hi"}''
        then Some (JObject [(''delta'', JString ''Hi'')])
      else if s = ''{"ping":true}''
        then Some (JObject [(''ping'', JBool True)])
      else if s = ''"x"''
        then Some (JString ''x'')
      else if s = ''{"delta":"from [DATE_PLUS_7] to [DATE_PLUS_7]!"}''
        then Some (JObject [(''delta'', JString ''from [DATE_PLUS_7] to [DATE_PLUS_7]!'')])
      else if s = ''{"choices":[{"delta":{"content":5}}],"delta":"X"}''
        then Some (JObject [(''choices'',
               JArray [JObject [(''delta'', JObject [(''content'', JNumber ''5'')])]]),
               (''delta'', JString ''X'')])
      else None)\<close>

text \<open>Short plain texts in the place of the prompt and of the canned answers.\<close>

definition sampleContent :: content where
  "sampleContent =
     \<lparr>SYSTEM_PROMPT = ''You are the Cloud29 Discovery AI Assistant.'',
      timeText = ''On average, it takes 7 to 10 days to build your demo.'',
      costText = ''There are two costs: installation and license fee.'',
      visibilityText = ''You will get a secure Cloud29 login.''\<rparr>"

text \<open>A world in which the completion API answers every call with the same three reads.\<close>

definition sampleUpstream :: upstream where
  \<open>sampleUpstream =
     \<lparr>ok = True,
      chunks = Some [''data: {"choices":[{"delta":{"content":"Hi"}}]}\<newline>\<newline>'',
                     ''data: [DONE]\<newline>'', ''\<newline>''],
      errorText = None\<rparr>\<close>

definition sampleWorld :: world where
  "sampleWorld =
     \<lparr>OPENAI_API_KEY = Some ''sk-test'',
      JSON_parse = sampleParse,
      fetch = (\<lambda>call. Some sampleUpstream),
      computeDatePlus7London = ''9 November 2026''\<rparr>"

definition userTurn :: "string \<Rightarrow> json" where
  "userTurn s = JObject [(''role'', JString ''user''), (''content'', JString s)]"

definition assistantTurn :: "string \<Rightarrow> json" where
  "assistantTurn s = JObject [(''role'', JString ''assistant''), (''content'', JString s)]"

definition postMessages :: "json list \<Rightarrow> request" where
  "postMessages ms = \<lparr>reqMethod = ''POST'', jsonBody = Some (JObject [(''messages'', JArray ms)])\<rparr>"

section \<open>Lines and chunks\<close>

lemma split_str_not_Nil: "split_str s sep \<noteq> []"
  by (induction s sep rule: split_str.induct) (auto split: list.splits)

declare split_str.simps(2) [simp del]

lemma split_nl_Cons_eq [simp]: "split_str (newline # cs) [newline] = [] # split_str cs [newline]"
  by (simp add: split_str.simps(2))

lemma split_nl_Cons_neq:
  "c \<noteq> newline \<Longrightarrow>
   split_str (c # cs) [newline] = (c # hd (split_str cs [newline])) # tl (split_str cs [newline])"
  using split_str_not_Nil [of cs "[newline]"] by (auto simp: split_str.simps(2) split: list.splits)

text \<open>Splitting a text that grows: the complete lines found so far stay, and only the
  last piece is read again with what follows.\<close>

lemma split_nl_append:
  "split_str (x @ y) [newline] =
     butlast (split_str x [newline]) @ split_str (last (split_str x [newline]) @ y) [newline]"
proof (induction x)
  case Nil
  show ?case by simp
next
  case (Cons c x)
  show ?case
  proof (cases "c = newline")
    case True
    then show ?thesis
      using Cons split_str_not_Nil [of x "[newline]"] by simp
  next
    case False
    obtain p ps where sp: "split_str x [newline] = p # ps"
      using split_str_not_Nil [of x "[newline]"] by (cases "split_str x [newline]") auto
    show ?thesis
    proof (cases ps)
      case Nil
      with False Cons sp show ?thesis
        by (simp add: split_nl_Cons_neq)
    next
      case (Cons q qs)
      with False Cons.IH sp show ?thesis
        by (simp add: split_nl_Cons_neq)
    qed
  qed
qed

lemma split_nl_free: "newline \<notin> set s \<Longrightarrow> split_str s [newline] = [s]"
  by (induction s) (auto simp: split_nl_Cons_neq)

lemma split_nl_pieces: "l \<in> set (split_str s [newline]) \<Longrightarrow> newline \<notin> set l"
proof (induction s arbitrary: l)
  case Nil
  then show ?case by simp
next
  case (Cons c s)
  show ?case
  proof (cases "c = newline")
    case True
    with Cons show ?thesis by auto
  next
    case False
    obtain p ps where sp: "split_str s [newline] = p # ps"
      using split_str_not_Nil [of s "[newline]"] by (cases "split_str s [newline]") auto
    with False Cons show ?thesis
      by (auto simp: split_nl_Cons_neq)
  qed
qed

lemma split_upstreamText:
  "\<forall>l\<in>set ls. newline \<notin> set l \<Longrightarrow> newline \<notin> set r \<Longrightarrow>
   split_str (upstreamText ls r) [newline] = ls @ [r]"
proof (induction ls)
  case Nil
  then show ?case by (simp add: upstreamText_def split_nl_free)
next
  case (Cons l ls)
  have step: "split_str (l @ newline # t) [newline] = l # split_str t [newline]"
    if "newline \<notin> set l" for l t
    using that by (induction l) (auto simp: split_nl_Cons_neq)
  from Cons show ?case
    by (simp add: upstreamText_def step)
qed

lemma completeLines_upstreamText:
  "\<forall>l\<in>set ls. newline \<notin> set l \<Longrightarrow> newline \<notin> set r \<Longrightarrow>
   completeLines (upstreamText ls r) = ls"
  by (simp add: completeLines_def split_upstreamText)

lemma residual_upstreamText:
  "\<forall>l\<in>set ls. newline \<notin> set l \<Longrightarrow> newline \<notin> set r \<Longrightarrow>
   residual (upstreamText ls r) = r"
  by (simp add: residual_def popLine_def split_upstreamText)

text \<open>The loop, whatever the chunk boundaries, writes the frames of the complete lines of
  the whole text in order, then those of the rest, then the sentinel.\<close>

lemma relayLoop_lines:
  "newline \<notin> set buffer \<Longrightarrow>
   relayLoop v parse dv buffer cs =
     concat (map (lineFrames v parse dv) (completeLines (buffer @ concat cs)))
     @ flushFrames v parse dv (residual (buffer @ concat cs)) @ [doneFrame]"
proof (induction cs arbitrary: buffer)
  case Nil
  then show ?case
    by (simp add: completeLines_def residual_def popLine_def split_nl_free doneFrame_def)
next
  case (Cons c cs)
  let ?lines = "split_str (buffer @ c) [newline]"
  have ne: "?lines \<noteq> []" by (rule split_str_not_Nil)
  then have pl: "popLine ?lines = last ?lines" by (simp add: popLine_def)
  have "newline \<notin> set (last ?lines)"
    using ne split_nl_pieces [of "last ?lines" "buffer @ c"] by simp
  then have IH: "relayLoop v parse dv (last ?lines) cs =
     concat (map (lineFrames v parse dv) (completeLines (last ?lines @ concat cs)))
     @ flushFrames v parse dv (residual (last ?lines @ concat cs)) @ [doneFrame]"
    by (rule Cons.IH)
  have sp: "split_str ((buffer @ c) @ concat cs) [newline]
            = butlast ?lines @ split_str (last ?lines @ concat cs) [newline]"
    by (rule split_nl_append)
  have ne2: "split_str (last ?lines @ concat cs) [newline] \<noteq> []" by (rule split_str_not_Nil)
  have cl: "completeLines (buffer @ c @ concat cs)
            = butlast ?lines @ completeLines (last ?lines @ concat cs)"
    using sp ne2 by (simp add: completeLines_def butlast_append)
  have rs: "residual (buffer @ c @ concat cs) = residual (last ?lines @ concat cs)"
    using sp ne2 by (simp add: residual_def popLine_def)
  show ?case
    by (simp add: Let_def pl IH cl rs)
qed

lemma relay_lines:
  "relay v parse dv cs =
     concat (map (lineFrames v parse dv) (completeLines (concat cs)))
     @ flushFrames v parse dv (residual (concat cs)) @ [doneFrame]"
  using relayLoop_lines [of "[]" v parse dv cs] by (simp add: relay_def)

section \<open>The terminal sentinel\<close>

lemma deltaFrame_not_done: "deltaFrame v delta dv \<noteq> doneFrame"
  by (simp add: deltaFrame_def doneFrame_def sseLine_def)

lemma count_list_concat:
  "count_list (concat xss) a = sum_list (map (\<lambda>xs. count_list xs a) xss)"
  by (induction xss) simp_all

lemma sum_list_indicator:
  "sum_list (map (\<lambda>x. if P x then 1 else 0) xs) = length (filter P xs)"
  by (induction xs) simp_all

lemma sum_list_mono_map:
  "(\<And>x. x \<in> set xs \<Longrightarrow> f x \<le> (g x :: nat)) \<Longrightarrow> sum_list (map f xs) \<le> sum_list (map g xs)"
  by (induction xs) (auto intro: add_mono)

lemma count_flushFrames: "count_list (flushFrames v parse dv r) doneFrame = 0"
  by (simp add: flushFrames_def deltaFrame_not_done split: option.splits json.splits)

lemma count_lineFrames_Part000:
  "count_list (lineFrames Part000 parse dv l) doneFrame = (if isDoneLine l then 1 else 0)"
  by (simp add: lineFrames_def isDoneLine_def Let_def doneFrame_def [symmetric] deltaFrame_not_done
      split: option.splits json.splits)

lemma count_lineFrames_ge:
  "(if isDoneLine l then 1 else 0) \<le> count_list (lineFrames v parse dv l) doneFrame"
  by (simp add: lineFrames_def isDoneLine_def Let_def doneFrame_def [symmetric])

lemma count_lineFrames_le:
  "count_list (lineFrames v parse dv l) doneFrame
     \<le> (if isDoneLine l then 1 else 0) + (if otherShapeLine parse l then 1 else 0)"
  by (cases v)
     (auto simp: lineFrames_def isDoneLine_def otherShapeLine_def passesDeltaTest_def Let_def
        doneFrame_def [symmetric] deltaFrame_not_done split: option.splits json.splits)

lemma sum_list_indicator2:
  "sum_list (map (\<lambda>x. (if P x then 1 else 0) + (if Q x then 1 else 0)) xs)
     = length (filter P xs) + length (filter Q xs)"
  by (induction xs) simp_all

text \<open>
  C1, as the code has it. The last frame of every completed run is the terminal sentinel,
  but it is not the only one in general: every complete upstream line that is the
  terminal marker has put one more sentinel frame before it. In the second variant the
  number of sentinel frames is exactly one plus the number of such lines; in the first it
  is at least that, and exceeds it by at most the number of lines whose JSON of another
  shape is forwarded.
\<close>

theorem relay_sentinel_last:
  "relay v parse dv cs \<noteq> []
   \<and> last (relay v parse dv cs) = doneFrame
   \<and> 1 + length (filter isDoneLine (completeLines (concat cs)))
       \<le> count_list (relay v parse dv cs) doneFrame
   \<and> count_list (relay v parse dv cs) doneFrame
       \<le> 1 + length (filter isDoneLine (completeLines (concat cs)))
           + length (filter (otherShapeLine parse) (completeLines (concat cs)))
   \<and> count_list (relay Part000 parse dv cs) doneFrame
       = 1 + length (filter isDoneLine (completeLines (concat cs)))"
proof -
  let ?ls = "completeLines (concat cs)"
  have a: "relay v parse dv cs \<noteq> []" and b: "last (relay v parse dv cs) = doneFrame"
    by (simp_all add: relay_lines)
  have "sum_list (map (\<lambda>l. if isDoneLine l then 1 else 0) ?ls)
        \<le> sum_list (map (\<lambda>l. count_list (lineFrames v parse dv l) doneFrame) ?ls)"
    by (rule sum_list_mono_map) (rule count_lineFrames_ge)
  then have c: "1 + length (filter isDoneLine ?ls) \<le> count_list (relay v parse dv cs) doneFrame"
    by (simp add: relay_lines count_list_concat count_flushFrames sum_list_indicator comp_def)
  have "sum_list (map (\<lambda>l. count_list (lineFrames v parse dv l) doneFrame) ?ls)
        \<le> sum_list (map (\<lambda>l. (if isDoneLine l then 1 else 0)
                                + (if otherShapeLine parse l then 1 else 0)) ?ls)"
    by (rule sum_list_mono_map) (rule count_lineFrames_le)
  then have e: "count_list (relay v parse dv cs) doneFrame
       \<le> 1 + length (filter isDoneLine ?ls) + length (filter (otherShapeLine parse) ?ls)"
    by (simp add: relay_lines count_list_concat count_flushFrames sum_list_indicator2 comp_def)
  have d: "count_list (relay Part000 parse dv cs) doneFrame = 1 + length (filter isDoneLine ?ls)"
    by (simp add: relay_lines count_list_concat count_flushFrames count_lineFrames_Part000
        sum_list_indicator comp_def)
  from a b c d e show ?thesis by blast
qed

text \<open>An upstream that ends with the terminal marker, as the completion API does: the
  run writes the sentinel twice.\<close>

theorem relay_two_sentinels:
  \<open>relay Part000 sampleParse ''9 November 2026''
      [''data: {"choices":[{"delta":{"content":"Hi"}}]}\<newline>\<newline>'', ''data: [DONE]\<newline>\<newline>'']
    = [''data: {"delta":"Hi"}\<newline>\<newline>'', doneFrame, doneFrame]
   \<and> count_list (relay Part000 sampleParse ''9 November 2026''
      [''data: {"choices":[{"delta":{"content":"Hi"}}]}\<newline>\<newline>'', ''data: [DONE]\<newline>\<newline>''])
      doneFrame = 2\<close>
  by code_simp

section \<open>Substitution of the date token\<close>

declare replaceAllFrom.simps(2) [simp del]

lemma split_str_at_sep: "sep \<noteq> [] \<Longrightarrow> split_str (sep @ r) sep = [] # split_str r sep"
  by (cases sep) (simp_all add: split_str.simps(2))

lemma split_str_step:
  "\<not> (sep \<noteq> [] \<and> prefix sep (c # cs)) \<Longrightarrow>
   split_str (c # cs) sep = (c # hd (split_str cs sep)) # tl (split_str cs sep)"
  using split_str_not_Nil [of cs sep] by (auto simp: split_str.simps(2) split: list.splits)

lemma join_str_Cons: "ps \<noteq> [] \<Longrightarrow> join_str (p # ps) sep = p @ sep @ join_str ps sep"
  by (cases ps) simp_all

lemma join_split: "join_str (split_str s sep) sep = s"
proof (induction s sep rule: split_str.induct)
  case (1 sep)
  show ?case by simp
next
  case (2 c cs sep)
  show ?case
  proof (cases "sep \<noteq> [] \<and> prefix sep (c # cs)")
    case True
    then obtain r where r: "c # cs = sep @ r" by (auto simp: prefix_def)
    then have d: "drop (length sep) (c # cs) = r" by simp
    from True 2 have "join_str (split_str (drop (length sep) (c # cs)) sep) sep
        = drop (length sep) (c # cs)" by simp
    with d have "join_str (split_str r sep) sep = r" by simp
    moreover have "split_str (c # cs) sep = [] # split_str r sep"
      using True r by (simp add: split_str_at_sep)
    ultimately show ?thesis
      using r by (simp add: join_str_Cons split_str_not_Nil)
  next
    case False
    obtain p ps where sp: "split_str cs sep = p # ps"
      using split_str_not_Nil [of cs sep] by (cases "split_str cs sep") auto
    have "split_str (c # cs) sep = (c # p) # ps"
      using False sp by (simp add: split_str_step)
    moreover have "join_str (p # ps) sep = cs"
      using False 2 sp by simp
    ultimately show ?thesis
      by (cases ps) simp_all
  qed
qed

lemma getSubstitution_plain:
  "CHR ''$'' \<notin> set v \<Longrightarrow> getSubstitution matched preceding following v = v"
  by (induction matched preceding following v rule: getSubstitution.induct) auto

text \<open>For a replacement text without a dollar sign, \<^verbatim>\<open>replaceAll\<close> is \<^verbatim>\<open>split\<close> followed by
  \<^verbatim>\<open>join\<close>.\<close>

lemma join_split_replaceAllFrom:
  "CHR ''$'' \<notin> set v \<Longrightarrow> join_str (split_str s t) v = replaceAllFrom preceding s t v"
proof (induction s t arbitrary: preceding rule: split_str.induct)
  case (1 sep)
  show ?case by simp
next
  case (2 c cs sep)
  show ?case
  proof (cases "sep \<noteq> [] \<and> prefix sep (c # cs)")
    case True
    with 2 have "join_str (split_str (drop (length sep) (c # cs)) sep) v
        = replaceAllFrom (preceding @ sep) (drop (length sep) (c # cs)) sep v" by simp
    moreover have "split_str (c # cs) sep = [] # split_str (drop (length sep) (c # cs)) sep"
      using True by (simp add: split_str.simps(2))
    moreover have "replaceAllFrom preceding (c # cs) sep v
        = v @ replaceAllFrom (preceding @ sep) (drop (length sep) (c # cs)) sep v"
      using True "2.prems" by (simp add: replaceAllFrom.simps(2) getSubstitution_plain)
    ultimately show ?thesis
      by (simp add: join_str_Cons split_str_not_Nil)
  next
    case False
    obtain p ps where sp: "split_str cs sep = p # ps"
      using split_str_not_Nil [of cs sep] by (cases "split_str cs sep") auto
    have "replaceAllFrom preceding (c # cs) sep v = c # replaceAllFrom (preceding @ [c]) cs sep v"
      using False by (auto simp: replaceAllFrom.simps(2))
    moreover have "split_str (c # cs) sep = (c # p) # ps"
      using False sp by (simp add: split_str_step)
    moreover have "join_str (p # ps) v = replaceAllFrom (preceding @ [c]) cs sep v"
      using False 2 sp by simp
    ultimately show ?thesis
      by (cases ps) simp_all
  qed
qed

lemma join_split_replaceAll:
  "CHR ''$'' \<notin> set v \<Longrightarrow> join_str (split_str s t) v = replaceAll s t v"
  by (simp add: replaceAll_def join_split_replaceAllFrom)

lemma includes_str_iff: "includes_str s t \<longleftrightarrow> (\<exists>a b. s = a @ t @ b)"
proof (induction s)
  case Nil
  show ?case by auto
next
  case (Cons c s)
  show ?case
  proof
    assume "includes_str (c # s) t"
    then consider "prefix t (c # s)" | "includes_str s t" by auto
    then show "\<exists>a b. c # s = a @ t @ b"
    proof cases
      case 1
      then obtain b where "c # s = t @ b" by (auto simp: prefix_def)
      then have "c # s = [] @ t @ b" by simp
      then show ?thesis by blast
    next
      case 2
      with Cons obtain a b where "s = a @ t @ b" by blast
      then have "c # s = (c # a) @ t @ b" by simp
      then show ?thesis by blast
    qed
  next
    assume "\<exists>a b. c # s = a @ t @ b"
    then obtain a b where ab: "c # s = a @ t @ b" by blast
    show "includes_str (c # s) t"
    proof (cases a)
      case Nil
      with ab have "prefix t (c # s)" by (simp add: prefix_def)
      then show ?thesis by simp
    next
      case (Cons a1 as)
      with ab have "s = as @ t @ b" by simp
      with Cons.IH show ?thesis by auto
    qed
  qed
qed

lemma not_includes_split: "\<not> includes_str s t \<Longrightarrow> split_str s t = [s]"
proof (induction s)
  case Nil
  show ?case by simp
next
  case (Cons c s)
  then show ?case by (auto simp: split_str_step)
qed

lemma hd_split_prefix: "prefix (hd (split_str s t)) s"
proof (induction s t rule: split_str.induct)
  case (1 sep)
  show ?case by simp
next
  case (2 c cs sep)
  show ?case
  proof (cases "sep \<noteq> [] \<and> prefix sep (c # cs)")
    case True
    then show ?thesis by (simp add: split_str.simps(2))
  next
    case False
    with 2 show ?thesis by (simp add: split_str_step)
  qed
qed

lemma prefix_includes: "prefix t s \<Longrightarrow> includes_str s t"
  by (cases s) auto

lemma split_pieces_free:
  "t \<noteq> [] \<Longrightarrow> p \<in> set (split_str s t) \<Longrightarrow> \<not> includes_str p t"
proof (induction s t arbitrary: p rule: split_str.induct)
  case (1 sep)
  then show ?case by simp
next
  case (2 c cs sep)
  show ?case
  proof (cases "sep \<noteq> [] \<and> prefix sep (c # cs)")
    case True
    with 2 show ?thesis by (auto simp: split_str.simps(2))
  next
    case False
    obtain q qs where sp: "split_str cs sep = q # qs"
      using split_str_not_Nil [of cs sep] by (cases "split_str cs sep") auto
    have pq: "prefix q cs" using hd_split_prefix [of cs sep] sp by simp
    have "\<not> prefix sep (c # q)"
    proof
      assume "prefix sep (c # q)"
      moreover have "prefix (c # q) (c # cs)" using pq by simp
      ultimately have "prefix sep (c # cs)" by (rule prefix_order.trans)
      with False 2 show False by simp
    qed
    moreover have "\<not> includes_str q sep" using 2 False sp by simp
    moreover have "\<And>r. r \<in> set qs \<Longrightarrow> \<not> includes_str r sep" using 2 False sp by simp
    ultimately show ?thesis using "2.prems" False sp by (auto simp: split_str_step)
  qed
qed

text \<open>A text whose first character does not occur again in it cannot overlap itself.\<close>

lemma no_straddle:
  assumes t: "t \<noteq> []" "hd t \<notin> set (tl t)"
    and np: "\<not> includes_str (c # p) t"
  shows "\<not> prefix t (c # p @ t @ r)"
proof
  assume pre: "prefix t (c # p @ t @ r)"
  then obtain z where z: "(c # p) @ t @ r = t @ z" by (auto simp: prefix_def)
  have "\<not> prefix t (c # p)" using np prefix_includes by blast
  have short: "length (c # p) < length t"
  proof (rule ccontr)
    assume "\<not> length (c # p) < length t"
    then have le: "length t \<le> length (c # p)" by simp
    from z have "take (length t) ((c # p) @ t @ r) = t" by simp
    with le have "take (length t) (c # p) = t" by (simp del: append.simps)
    then have "prefix t (c # p)" by (metis take_is_prefix)
    with \<open>\<not> prefix t (c # p)\<close> show False by simp
  qed
  obtain h tl0 where ht: "t = h # tl0" using t(1) by (cases t) auto
  have "t ! length (c # p) = (t @ z) ! length (c # p)"
    using short by (simp add: nth_append)
  also have "\<dots> = ((c # p) @ t @ r) ! length (c # p)" using z by simp
  also have "\<dots> = ((c # p) @ h # (tl0 @ r)) ! length (c # p)" using ht by simp
  also have "\<dots> = h" by (rule nth_append_length)
  finally have e: "t ! length (c # p) = h" .
  from ht short have "length p < length tl0" by simp
  then have "tl0 ! length p \<in> set tl0" by simp
  moreover have "t ! length (c # p) = tl0 ! length p" using ht by simp
  ultimately have "h \<in> set tl0" using e by simp
  with ht t(2) show False by simp
qed

lemma split_piece_sep:
  assumes t: "t \<noteq> []" "hd t \<notin> set (tl t)"
  shows "\<not> includes_str p t \<Longrightarrow> split_str (p @ t @ r) t = p # split_str r t"
proof (induction p)
  case Nil
  show ?case using t(1) by (simp add: split_str_at_sep)
next
  case (Cons c p)
  from Cons.prems have np: "\<not> includes_str p t" by simp
  have "\<not> prefix t (c # p @ t @ r)" using t Cons.prems by (rule no_straddle)
  then have "split_str (c # (p @ t @ r)) t
      = (c # hd (split_str (p @ t @ r) t)) # tl (split_str (p @ t @ r) t)"
    by (simp add: split_str_step)
  with Cons.IH [OF np] show ?case by simp
qed

lemma split_join:
  assumes t: "t \<noteq> []" "hd t \<notin> set (tl t)"
  shows "ps \<noteq> [] \<Longrightarrow> \<forall>p\<in>set ps. \<not> includes_str p t \<Longrightarrow> split_str (join_str ps t) t = ps"
proof (induction ps)
  case Nil
  then show ?case by simp
next
  case (Cons p ps)
  show ?case
  proof (cases ps)
    case Nil
    with Cons.prems show ?thesis by (simp add: not_includes_split)
  next
    case (Cons q qs)
    with Cons.IH Cons.prems have "split_str (join_str ps t) t = ps" by simp
    moreover have "\<not> includes_str p t" using Cons.prems by simp
    ultimately show ?thesis using Cons split_piece_sep [OF t, of p "join_str ps t"]
      by simp
  qed
qed

lemma dateToken_unbordered: "dateToken \<noteq> []" "hd dateToken \<notin> set (tl dateToken)"
  by (simp_all add: dateToken_def)

lemma patched_join_split:
  "CHR ''$'' \<notin> set dv \<Longrightarrow> patched v s dv = join_str (split_str s dateToken) dv"
proof (cases "includes_str s dateToken")
  case True
  assume "CHR ''$'' \<notin> set dv"
  with True show ?thesis
    by (cases v) (simp_all add: patched_def join_split_replaceAll [symmetric])
next
  case False
  then have "split_str s dateToken = [s]" by (rule not_includes_split)
  with False show ?thesis by (simp add: patched_def)
qed


lemma lineFrames_delta:
  "startsWith line ''data:'' \<Longrightarrow> trim (slice line 5) \<noteq> ''[DONE]'' \<Longrightarrow>
   parse (trim (slice line 5)) = Some json \<Longrightarrow> extractDelta json = Some (JString delta) \<Longrightarrow>
   delta \<noteq> [] \<Longrightarrow> lineFrames v parse dv line = [deltaFrame v delta dv]"
  by (simp add: lineFrames_def)

lemma includes_str_Nil [simp]: "includes_str s [] \<longleftrightarrow> True"
  by (cases s) simp_all

lemma patched_pieces:
  assumes "CHR ''$'' \<notin> set dv"
  shows "(\<forall>pieces. pieces \<noteq> [] \<and> (\<forall>p\<in>set pieces. \<not> includes_str p dateToken)
        \<and> delta = join_str pieces dateToken
      \<longrightarrow> patched v delta dv = join_str pieces dv)
   \<and> (\<exists>pieces. pieces \<noteq> [] \<and> (\<forall>p\<in>set pieces. \<not> includes_str p dateToken)
        \<and> delta = join_str pieces dateToken)
   \<and> (\<not> includes_str delta dateToken \<longrightarrow> patched v delta dv = delta)"
proof (intro conjI allI impI)
  fix pieces
  assume h: "pieces \<noteq> [] \<and> (\<forall>p\<in>set pieces. \<not> includes_str p dateToken)
        \<and> delta = join_str pieces dateToken"
  then have "split_str delta dateToken = pieces"
    using split_join [OF dateToken_unbordered, of pieces] by simp
  then show "patched v delta dv = join_str pieces dv"
    using assms by (simp add: patched_join_split)
next
  have "split_str delta dateToken \<noteq> []" by (rule split_str_not_Nil)
  moreover have "\<forall>p\<in>set (split_str delta dateToken). \<not> includes_str p dateToken"
    using split_pieces_free [OF dateToken_unbordered(1)] by blast
  moreover have "delta = join_str (split_str delta dateToken) dateToken"
    by (simp add: join_split)
  ultimately show "\<exists>pieces. pieces \<noteq> [] \<and> (\<forall>p\<in>set pieces. \<not> includes_str p dateToken)
        \<and> delta = join_str pieces dateToken" by blast
next
  assume "\<not> includes_str delta dateToken"
  then show "patched v delta dv = delta" by (simp add: patched_def)
qed

lemma sseLine_delta_text:
  \<open>sseLine (JObject [(''delta'', JString t)]) = ''data: {"delta":'' @ quoteJSON t @ ''}'' @ [newline, newline]\<close>
  by (simp add: sseLine_def quoteJSON_def escapeChar_def dquote_def backslash_def)

lemma flushFrames_delta:
  "r \<noteq> [] \<Longrightarrow> parse r = Some json \<Longrightarrow> extractDelta json = Some (JString delta) \<Longrightarrow>
   delta \<noteq> [] \<Longrightarrow> flushFrames v parse dv r = [deltaFrame v delta dv]"
  by (simp add: flushFrames_def)

text \<open>
  C3. The delta text that a frame carries is the received text with every occurrence of
  the date token replaced by the date text and nothing else changed. For a value from
  which a non-empty string delta is extracted: the delta can be cut into pieces free of
  the token with the token between them; for every such cut, the frame written for a
  line with that value, and the frame written for an unterminated rest with that value,
  is \<^verbatim>\<open>data: {"delta":...}\<close> with the same pieces and the date text between them; and a
  delta without the token is written as it is.
\<close>

theorem emitted_delta_text:
  assumes "CHR ''$'' \<notin> set dv"
    and "extractDelta json = Some (JString delta)" and "delta \<noteq> []"
  shows \<open>(\<exists>pieces. pieces \<noteq> [] \<and> (\<forall>p\<in>set pieces. \<not> includes_str p dateToken)
            \<and> delta = join_str pieces dateToken)
     \<and> (\<forall>pieces line. pieces \<noteq> [] \<and> (\<forall>p\<in>set pieces. \<not> includes_str p dateToken)
            \<and> delta = join_str pieces dateToken
            \<and> startsWith line ''data:'' \<and> trim (slice line 5) \<noteq> ''[DONE]''
            \<and> parse (trim (slice line 5)) = Some json
          \<longrightarrow> lineFrames v parse dv line
                = [''data: {"delta":'' @ quoteJSON (join_str pieces dv) @ ''}'' @ [newline, newline]])
     \<and> (\<forall>pieces r. pieces \<noteq> [] \<and> (\<forall>p\<in>set pieces. \<not> includes_str p dateToken)
            \<and> delta = join_str pieces dateToken
            \<and> r \<noteq> [] \<and> parse r = Some json
          \<longrightarrow> flushFrames v parse dv r
                = [''data: {"delta":'' @ quoteJSON (join_str pieces dv) @ ''}'' @ [newline, newline]])
     \<and> (\<forall>line. \<not> includes_str delta dateToken
            \<and> startsWith line ''data:'' \<and> trim (slice line 5) \<noteq> ''[DONE]''
            \<and> parse (trim (slice line 5)) = Some json
          \<longrightarrow> lineFrames v parse dv line
                = [''data: {"delta":'' @ quoteJSON delta @ ''}'' @ [newline, newline]])\<close>
proof -
  note pp = patched_pieces [OF assms(1), of delta v]
  have ex: "\<exists>pieces. pieces \<noteq> [] \<and> (\<forall>p\<in>set pieces. \<not> includes_str p dateToken)
            \<and> delta = join_str pieces dateToken"
    using pp by blast
  have pt: "patched v delta dv = join_str pieces dv"
    if "pieces \<noteq> [] \<and> (\<forall>p\<in>set pieces. \<not> includes_str p dateToken) \<and> delta = join_str pieces dateToken"
    for pieces
    using pp that by blast
  have p0: "patched v delta dv = delta" if "\<not> includes_str delta dateToken"
    using pp that by blast
  have lf: "lineFrames v parse dv line = [deltaFrame v delta dv]"
    if "startsWith line ''data:'' \<and> trim (slice line 5) \<noteq> ''[DONE]'' \<and> parse (trim (slice line 5)) = Some json"
    for line
    using that assms(2,3) by (simp add: lineFrames_delta)
  have ff: "flushFrames v parse dv r = [deltaFrame v delta dv]"
    if "r \<noteq> [] \<and> parse r = Some json" for r
    using that assms(2,3) by (simp add: flushFrames_delta)
  have df: \<open>deltaFrame v delta dv = ''data: {"delta":'' @ quoteJSON (patched v delta dv) @ ''}'' @ [newline, newline]\<close>
    unfolding deltaFrame_def by (rule sseLine_delta_text)
  show ?thesis
  proof (intro conjI allI impI)
    show "\<exists>pieces. pieces \<noteq> [] \<and> (\<forall>p\<in>set pieces. \<not> includes_str p dateToken)
            \<and> delta = join_str pieces dateToken" by (rule ex)
  next
    fix pieces line
    assume h: "pieces \<noteq> [] \<and> (\<forall>p\<in>set pieces. \<not> includes_str p dateToken)
            \<and> delta = join_str pieces dateToken
            \<and> startsWith line ''data:'' \<and> trim (slice line 5) \<noteq> ''[DONE]''
            \<and> parse (trim (slice line 5)) = Some json"
    then have "patched v delta dv = join_str pieces dv" by (intro pt) blast
    moreover from h have "lineFrames v parse dv line = [deltaFrame v delta dv]" by (intro lf) blast
    ultimately show \<open>lineFrames v parse dv line
                = [''data: {"delta":'' @ quoteJSON (join_str pieces dv) @ ''}'' @ [newline, newline]]\<close>
      by (simp only: df)
  next
    fix pieces r
    assume h: "pieces \<noteq> [] \<and> (\<forall>p\<in>set pieces. \<not> includes_str p dateToken)
            \<and> delta = join_str pieces dateToken
            \<and> r \<noteq> [] \<and> parse r = Some json"
    then have "patched v delta dv = join_str pieces dv" by (intro pt) blast
    moreover from h have "flushFrames v parse dv r = [deltaFrame v delta dv]" by (intro ff) blast
    ultimately show \<open>flushFrames v parse dv r
                = [''data: {"delta":'' @ quoteJSON (join_str pieces dv) @ ''}'' @ [newline, newline]]\<close>
      by (simp only: df)
  next
    fix line
    assume h: "\<not> includes_str delta dateToken
            \<and> startsWith line ''data:'' \<and> trim (slice line 5) \<noteq> ''[DONE]''
            \<and> parse (trim (slice line 5)) = Some json"
    then have "patched v delta dv = delta" by (intro p0) blast
    moreover from h have "lineFrames v parse dv line = [deltaFrame v delta dv]" by (intro lf) blast
    ultimately show \<open>lineFrames v parse dv line
                = [''data: {"delta":'' @ quoteJSON delta @ ''}'' @ [newline, newline]]\<close>
      by (simp only: df)
  qed
qed

theorem emitted_delta_text_witness:
  \<open>lineFrames Part000 sampleParse ''9 November 2026'' ''data: {"delta":"from [DATE_PLUS_7] to [DATE_PLUS_7]!"}''
     = [''data: {"delta":"from 9 November 2026 to 9 November 2026!"}\<newline>\<newline>'']
   \<and> flushFrames ChatTs sampleParse ''9 November 2026'' ''{"delta":"from [DATE_PLUS_7] to [DATE_PLUS_7]!"}''
     = [''data: {"delta":"from 9 November 2026 to 9 November 2026!"}\<newline>\<newline>'']
   \<and> lineFrames ChatTs sampleParse ''9 November 2026'' ''data: {"delta":"Hi"}''
     = [''data: {"delta":"Hi"}\<newline>\<newline>'']\<close>
proof -
  let ?d = "''from [DATE_PLUS_7] to [DATE_PLUS_7]!''"
  let ?j = "JObject [(''delta'', JString ?d)]"
  let ?ps = "[''from '', '' to '', ''!'']"
  let ?line = \<open>''data: {"delta":"from [DATE_PLUS_7] to [DATE_PLUS_7]!"}''\<close>
  let ?r = \<open>''{"delta":"from [DATE_PLUS_7] to [DATE_PLUS_7]!"}''\<close>
  have d: "CHR ''$'' \<notin> set ''9 November 2026''" by simp
  have e: "extractDelta ?j = Some (JString ?d)" by code_simp
  have n: "?d \<noteq> []" by simp
  have h: "?ps \<noteq> [] \<and> (\<forall>p\<in>set ?ps. \<not> includes_str p dateToken) \<and> ?d = join_str ?ps dateToken"
    by (simp add: dateToken_def)
  have l: "startsWith ?line ''data:'' \<and> trim (slice ?line 5) \<noteq> ''[DONE]''
      \<and> sampleParse (trim (slice ?line 5)) = Some ?j" by code_simp
  have r: "?r \<noteq> [] \<and> sampleParse ?r = Some ?j" by code_simp
  have q: \<open>''data: {"delta":'' @ quoteJSON (join_str ?ps ''9 November 2026'') @ ''}'' @ [newline, newline]
      = ''data: {"delta":"from 9 November 2026 to 9 November 2026!"}\<newline>\<newline>''\<close> by code_simp
  have a: "lineFrames Part000 sampleParse ''9 November 2026'' ?line
     = [''data: {\"delta\":\"from 9 November 2026 to 9 November 2026!\"}\<newline>\<newline>'']"
    using emitted_delta_text [OF d e n, where v = Part000 and parse = sampleParse] h l unfolding q [symmetric] by blast
  have b: "flushFrames ChatTs sampleParse ''9 November 2026'' ?r
     = [''data: {\"delta\":\"from 9 November 2026 to 9 November 2026!\"}\<newline>\<newline>'']"
    using emitted_delta_text [OF d e n, where v = ChatTs and parse = sampleParse] h r unfolding q [symmetric] by blast
  let ?hl = \<open>''data: {"delta":"Hi"}''\<close>
  have e2: "extractDelta (JObject [(''delta'', JString ''Hi'')]) = Some (JString ''Hi'')" by code_simp
  have n2: "''Hi'' \<noteq> []" by simp
  have l2: "\<not> includes_str ''Hi'' dateToken \<and> startsWith ?hl ''data:'' \<and> trim (slice ?hl 5) \<noteq> ''[DONE]''
      \<and> sampleParse (trim (slice ?hl 5)) = Some (JObject [(''delta'', JString ''Hi'')])" by code_simp
  have q2: \<open>''data: {"delta":'' @ quoteJSON ''Hi'' @ ''}'' @ [newline, newline]
      = ''data: {"delta":"Hi"}\<newline>\<newline>''\<close> by code_simp
  have c: "lineFrames ChatTs sampleParse ''9 November 2026'' ?hl = [''data: {\"delta\":\"Hi\"}\<newline>\<newline>'']"
    using emitted_delta_text [OF d e2 n2, where v = ChatTs and parse = sampleParse] l2 unfolding q2 [symmetric] by blast
  from a b c show ?thesis by blast
qed




section \<open>Lines that leave no frame\<close>

lemma lineFrames_skipped: "skippedLine v parse line \<Longrightarrow> lineFrames v parse dv line = []"
  by (cases v) (auto simp: skippedLine_def lineFrames_def passesDeltaTest_def
      split: if_splits option.splits json.splits)

lemma passesDeltaTest_carries: "passesDeltaTest json \<Longrightarrow> carriesDelta json"
  by (auto simp: passesDeltaTest_def carriesDelta_def extractDelta_def nestedDelta_def flatDelta_def
      nullish_def split: option.splits json.splits)

lemma flushFrames_skipped:
  "(case parse r of None \<Rightarrow> True | Some json \<Rightarrow> \<not> passesDeltaTest json) \<Longrightarrow>
   flushFrames v parse dv r = []"
  by (auto simp: flushFrames_def passesDeltaTest_def split: option.splits json.splits)

lemma lineFrames_otherShape:
  "otherShapeLine parse line \<Longrightarrow> parse (trim (slice line 5)) = Some json \<Longrightarrow>
   lineFrames Part000 parse dv line = [] \<and> lineFrames ChatTs parse dv line = [sseLine json]"
  by (auto simp: lineFrames_def otherShapeLine_def passesDeltaTest_def Let_def
      split: if_splits option.splits json.splits)

text \<open>
  C4, as the code has it. The frames of a stream are those of its lines, in order. A
  line that is no \<^verbatim>\<open>data:\<close> line, or whose payload is neither the terminal marker nor
  accepted by \<^verbatim>\<open>JSON.parse\<close>, leaves no frame, and the run is the same as without the
  line; in the second variant the same holds for a line whose JSON does not yield a
  non-empty string delta. For such a line the first variant writes one frame,
  \<^verbatim>\<open>sseLine(json)\<close>: the parsed value printed by \<^verbatim>\<open>JSON.stringify\<close>, or as it is when
  it is a string. An unterminated rest that does not parse, or yields no such delta,
  leaves no frame in either variant. A value with a delta in neither place never passes
  the test of the code.
\<close>

theorem skipped_line_leaves_no_frame:
  assumes "\<forall>l\<in>set (before @ bad # after). newline \<notin> set l" and "newline \<notin> set r"
    and "concat cs = upstreamText (before @ bad # after) r"
    and "concat cs' = upstreamText (before @ after) r"
  shows "relay v parse dv cs
        = concat (map (lineFrames v parse dv) before) @ lineFrames v parse dv bad
          @ concat (map (lineFrames v parse dv) after) @ flushFrames v parse dv r @ [doneFrame]
     \<and> (skippedLine v parse bad \<longrightarrow>
          lineFrames v parse dv bad = [] \<and> relay v parse dv cs = relay v parse dv cs')
     \<and> (\<forall>json. otherShapeLine parse bad \<and> parse (trim (slice bad 5)) = Some json \<longrightarrow>
          lineFrames Part000 parse dv bad = []
          \<and> lineFrames ChatTs parse dv bad
             = [''data: '' @ (case json of JString s \<Rightarrow> s | _ \<Rightarrow> stringify json) @ [newline, newline]])
     \<and> ((case parse r of None \<Rightarrow> True | Some json \<Rightarrow> \<not> passesDeltaTest json) \<longrightarrow>
          flushFrames v parse dv r = [])
     \<and> (\<forall>json. \<not> carriesDelta json \<longrightarrow> \<not> passesDeltaTest json)"
proof -
  have l2: "\<forall>l\<in>set (before @ after). newline \<notin> set l" using assms(1) by auto
  have a: "relay v parse dv cs
      = concat (map (lineFrames v parse dv) (before @ bad # after)) @ flushFrames v parse dv r @ [doneFrame]"
    unfolding relay_lines assms(3)
    by (simp only: completeLines_upstreamText [OF assms(1,2)] residual_upstreamText [OF assms(1,2)])
  have b: "relay v parse dv cs'
      = concat (map (lineFrames v parse dv) (before @ after)) @ flushFrames v parse dv r @ [doneFrame]"
    unfolding relay_lines assms(4)
    by (simp only: completeLines_upstreamText [OF l2 assms(2)] residual_upstreamText [OF l2 assms(2)])
  have 1: "relay v parse dv cs
        = concat (map (lineFrames v parse dv) before) @ lineFrames v parse dv bad
          @ concat (map (lineFrames v parse dv) after) @ flushFrames v parse dv r @ [doneFrame]"
    using a by simp
  have 2: "lineFrames v parse dv bad = [] \<and> relay v parse dv cs = relay v parse dv cs'"
    if "skippedLine v parse bad"
    using lineFrames_skipped [OF that, of dv] a b by simp
  have 3: "lineFrames Part000 parse dv bad = []
          \<and> lineFrames ChatTs parse dv bad
             = [''data: '' @ (case json of JString s \<Rightarrow> s | _ \<Rightarrow> stringify json) @ [newline, newline]]"
    if "otherShapeLine parse bad \<and> parse (trim (slice bad 5)) = Some json" for json
    using lineFrames_otherShape [of parse bad json dv] that by (simp add: sseLine_def)
  have 4: "flushFrames v parse dv r = []"
    if "case parse r of None \<Rightarrow> True | Some json \<Rightarrow> \<not> passesDeltaTest json"
    using that by (rule flushFrames_skipped)
  have 5: "\<not> passesDeltaTest json" if "\<not> carriesDelta json" for json
    using that passesDeltaTest_carries by blast
  from 1 2 3 4 5 show ?thesis by blast
qed

theorem skipped_line_leaves_no_frame_witness:
  \<open>skippedLine ChatTs sampleParse ''data: {"delta":"Hi''
   \<and> relay ChatTs sampleParse ''9 November 2026''
        [''data: {"delta":"Hi"}\<newline>data: {"delta":"Hi\<newline>data: {"delta":"Hi"}\<newline>'']
      = relay ChatTs sampleParse ''9 November 2026''
        [''data: {"delta":"Hi"}\<newline>data: {"delta":"Hi"}\<newline>'']
   \<and> relay ChatTs sampleParse ''9 November 2026''
        [''data: {"delta":"Hi"}\<newline>data: {"delta":"Hi\<newline>data: {"delta":"Hi"}\<newline>'']
      = [''data: {"delta":"Hi"}\<newline>\<newline>'', ''data: {"delta":"Hi"}\<newline>\<newline>'', doneFrame]
   \<and> otherShapeLine sampleParse ''data: "x"''
   \<and> lineFrames Part000 sampleParse ''9 November 2026'' ''data: "x"'' = []
   \<and> lineFrames ChatTs sampleParse ''9 November 2026'' ''data: "x"'' = [''data: x\<newline>\<newline>'']
   \<and> otherShapeLine sampleParse ''data: {"ping":true}''
   \<and> lineFrames ChatTs sampleParse ''9 November 2026'' ''data: {"ping":true}''
      = [''data: {"ping":true}\<newline>\<newline>'']
   \<and> relay Part000 sampleParse ''9 November 2026''
        [''data: {"delta":"Hi"}\<newline>data: {"ping":true}\<newline>{"ping":true}'']
      = [''data: {"delta":"Hi"}\<newline>\<newline>'', doneFrame]\<close>
proof -
  let ?good = \<open>''data: {"delta":"Hi"}''\<close>
  let ?bad = \<open>''data: {"delta":"Hi''\<close>
  let ?d = "''9 November 2026''"
  have 1: "skippedLine ChatTs sampleParse ?bad" by code_simp
  have 2: "\<forall>l\<in>set ([?good] @ ?bad # [?good]). newline \<notin> set l" by code_simp
  have 3: "newline \<notin> set []" by simp
  have 4: \<open>concat [''data: {"delta":"Hi"}\<newline>data: {"delta":"Hi\<newline>data: {"delta":"Hi"}\<newline>'']
      = upstreamText ([?good] @ ?bad # [?good]) []\<close> by code_simp
  have 5: \<open>concat [''data: {"delta":"Hi"}\<newline>data: {"delta":"Hi"}\<newline>'']
      = upstreamText ([?good] @ [?good]) []\<close> by code_simp
  note t1 = skipped_line_leaves_no_frame [OF 2 3 4 5, where v = ChatTs and parse = sampleParse and dv = ?d]
  have f: "lineFrames ChatTs sampleParse ?d ?good = [''data: {\"delta\":\"Hi\"}\<newline>\<newline>'']"
    by code_simp
  have g: "flushFrames ChatTs sampleParse ?d [] = []" by code_simp
  have a: \<open>relay ChatTs sampleParse ?d
        [''data: {"delta":"Hi"}\<newline>data: {"delta":"Hi\<newline>data: {"delta":"Hi"}\<newline>'']
      = relay ChatTs sampleParse ?d [''data: {"delta":"Hi"}\<newline>data: {"delta":"Hi"}\<newline>'']\<close>
    and b: "lineFrames ChatTs sampleParse ?d ?bad = []"
    using t1 1 by blast+
  have c: \<open>relay ChatTs sampleParse ?d
        [''data: {"delta":"Hi"}\<newline>data: {"delta":"Hi\<newline>data: {"delta":"Hi"}\<newline>'']
      = [''data: {"delta":"Hi"}\<newline>\<newline>'', ''data: {"delta":"Hi"}\<newline>\<newline>'', doneFrame]\<close>
    using conjunct1 [OF t1] by (simp add: f g b)
  let ?x = \<open>''data: "x"''\<close>
  let ?p = \<open>''data: {"ping":true}''\<close>
  have 6: "\<forall>l\<in>set ([] @ ?x # []). newline \<notin> set l" by code_simp
  have 7: "concat [?x @ [newline]] = upstreamText ([] @ ?x # []) []" by code_simp
  have 8: "concat [[]] = upstreamText ([] @ []) []" by code_simp
  have 9: "otherShapeLine sampleParse ?x \<and> sampleParse (trim (slice ?x 5)) = Some (JString ''x'')"
    by code_simp
  have d: "lineFrames Part000 sampleParse ?d ?x = []
      \<and> lineFrames ChatTs sampleParse ?d ?x = [''data: x\<newline>\<newline>'']"
    using skipped_line_leaves_no_frame [OF 6 3 7 8, where v = ChatTs and parse = sampleParse and dv = ?d] 9
    by (auto simp: newline_def)
  have 10: "\<forall>l\<in>set ([] @ ?p # []). newline \<notin> set l" by code_simp
  have 11: "concat [?p @ [newline]] = upstreamText ([] @ ?p # []) []" by code_simp
  have 12: "otherShapeLine sampleParse ?p
      \<and> sampleParse (trim (slice ?p 5)) = Some (JObject [(''ping'', JBool True)])" by code_simp
  have 13: \<open>''data: '' @ (case JObject [(''ping'', JBool True)] of JString s \<Rightarrow> s | _ \<Rightarrow> stringify (JObject [(''ping'', JBool True)])) @ [newline, newline]
      = ''data: {"ping":true}\<newline>\<newline>''\<close> by code_simp
  have e: \<open>lineFrames ChatTs sampleParse ?d ?p = [''data: {"ping":true}\<newline>\<newline>'']\<close>
    using skipped_line_leaves_no_frame [OF 10 3 11 8, where v = ChatTs and parse = sampleParse and dv = ?d] 12
    unfolding 13 [symmetric] by blast
  let ?r = \<open>''{"ping":true}''\<close>
  have 14: "\<forall>l\<in>set ([?good] @ ?p # []). newline \<notin> set l" by code_simp
  have 15: "newline \<notin> set ?r" by code_simp
  have 16: \<open>concat [''data: {"delta":"Hi"}\<newline>data: {"ping":true}\<newline>{"ping":true}'']
      = upstreamText ([?good] @ ?p # []) ?r\<close> by code_simp
  have 17: "concat [?good @ [newline] @ ?r] = upstreamText ([?good] @ []) ?r" by code_simp
  have 18: "skippedLine Part000 sampleParse ?p" by code_simp
  have 19: "case sampleParse ?r of None \<Rightarrow> True | Some json \<Rightarrow> \<not> passesDeltaTest json" by code_simp
  have 20: "lineFrames Part000 sampleParse ?d ?good = [''data: {\"delta\":\"Hi\"}\<newline>\<newline>'']"
    by code_simp
  note t4 = skipped_line_leaves_no_frame [OF 14 15 16 17, where v = Part000 and parse = sampleParse and dv = ?d]
  have "lineFrames Part000 sampleParse ?d ?p = []" and "flushFrames Part000 sampleParse ?d ?r = []"
    using t4 18 19 by blast+
  then have h: \<open>relay Part000 sampleParse ?d
        [''data: {"delta":"Hi"}\<newline>data: {"ping":true}\<newline>{"ping":true}'']
      = [''data: {"delta":"Hi"}\<newline>\<newline>'', doneFrame]\<close>
    using conjunct1 [OF t4] by (simp add: 20)
  from 1 a c 9 d 12 e h show ?thesis by blast
qed

text \<open>In the first variant a line with JSON of another shape does leave a frame.\<close>

theorem other_shape_forwarded:
  \<open>\<not> isDoneLine ''data: {"ping":true}''
   \<and> sampleParse (trim (slice ''data: {"ping":true}'' 5)) = Some (JObject [(''ping'', JBool True)])
   \<and> \<not> carriesDelta (JObject [(''ping'', JBool True)])
   \<and> relay ChatTs sampleParse ''9 November 2026'' [''data: {"ping":true}\<newline>'']
      = [''data: {"ping":true}\<newline>\<newline>'', doneFrame]\<close>
  by code_simp

section \<open>The unterminated rest\<close>

text \<open>
  C9. What follows the last line feed is handed to \<^verbatim>\<open>JSON.parse\<close> as it is, with no
  test for \<^verbatim>\<open>data:\<close> and none for the terminal marker. \<^verbatim>\<open>JSON.parse\<close> throws on a
  text that begins with \<^verbatim>\<open>data:\<close>, so such a rest leaves no frame; a frame is written
  for the rest only if the rest itself is JSON with a non-empty string delta; the closing
  sentinel follows in every case.
\<close>

theorem unterminated_rest_dropped:
  assumes "\<forall>l\<in>set ls. newline \<notin> set l" and "newline \<notin> set r"
    and "concat cs = upstreamText ls r"
  shows "relay v parse dv cs
        = concat (map (lineFrames v parse dv) ls) @ flushFrames v parse dv r @ [doneFrame]
     \<and> (parse r = None \<longrightarrow>
          relay v parse dv cs = concat (map (lineFrames v parse dv) ls) @ [doneFrame])
     \<and> (flushFrames v parse dv r \<noteq> [] \<longrightarrow>
          r \<noteq> [] \<and> (\<exists>json delta. parse r = Some json \<and> extractDelta json = Some (JString delta)
             \<and> delta \<noteq> [] \<and> flushFrames v parse dv r = [deltaFrame v delta dv]))"
proof -
  have a: "relay v parse dv cs
      = concat (map (lineFrames v parse dv) ls) @ flushFrames v parse dv r @ [doneFrame]"
    unfolding relay_lines assms(3)
    by (simp only: completeLines_upstreamText [OF assms(1,2)] residual_upstreamText [OF assms(1,2)])
  have b: "parse r = None \<Longrightarrow> flushFrames v parse dv r = []"
    by (simp add: flushFrames_def)
  have c: "flushFrames v parse dv r \<noteq> [] \<Longrightarrow>
          r \<noteq> [] \<and> (\<exists>json delta. parse r = Some json \<and> extractDelta json = Some (JString delta)
             \<and> delta \<noteq> [] \<and> flushFrames v parse dv r = [deltaFrame v delta dv])"
    by (auto simp: flushFrames_def split: if_splits option.splits json.splits)
  from a b c show ?thesis by auto
qed

theorem unterminated_rest_dropped_witness:
  \<open>sampleParse ''data: {"delta":"Hi"}'' = None
   \<and> relay Part000 sampleParse ''9 November 2026'' [''data: {"delta":"Hi"}\<newline>da'', ''ta: {"delta":"Hi"}'']
      = [''data: {"delta":"Hi"}\<newline>\<newline>''] @ [doneFrame]
   \<and> sampleParse ''data: [DONE]'' = None
   \<and> relay ChatTs sampleParse ''9 November 2026'' [''data: [DONE]'']
      = [] @ [doneFrame]
   \<and> flushFrames ChatTs sampleParse ''9 November 2026'' ''{"delta":"Hi"}'' \<noteq> []
   \<and> relay ChatTs sampleParse ''9 November 2026'' [''{"delta":"Hi"}'']
      = [] @ [deltaFrame ChatTs ''Hi'' ''9 November 2026''] @ [doneFrame]\<close>
proof -
  let ?l = \<open>''data: {"delta":"Hi"}''\<close>
  have 1: "\<forall>l\<in>set [?l]. newline \<notin> set l" by code_simp
  have 2: "newline \<notin> set ?l" by code_simp
  have 3: \<open>concat [''data: {"delta":"Hi"}\<newline>da'', ''ta: {"delta":"Hi"}''] = upstreamText [?l] ?l\<close>
    by code_simp
  have 4: "sampleParse ?l = None" by code_simp
  have 5: "lineFrames Part000 sampleParse ''9 November 2026'' ?l = [''data: {\"delta\":\"Hi\"}\<newline>\<newline>'']"
    by code_simp
  have a: \<open>relay Part000 sampleParse ''9 November 2026'' [''data: {"delta":"Hi"}\<newline>da'', ''ta: {"delta":"Hi"}'']
      = [''data: {"delta":"Hi"}\<newline>\<newline>''] @ [doneFrame]\<close>
    using unterminated_rest_dropped [OF 1 2 3, of Part000 sampleParse "''9 November 2026''"] 4 5
    by simp
  have 6: "\<forall>l\<in>set []. newline \<notin> set l" by simp
  have 7: "newline \<notin> set ''data: [DONE]''" by code_simp
  have 8: "concat [''data: [DONE]''] = upstreamText [] ''data: [DONE]''" by code_simp
  have 9: "sampleParse ''data: [DONE]'' = None" by code_simp
  have b: "relay ChatTs sampleParse ''9 November 2026'' [''data: [DONE]''] = [] @ [doneFrame]"
    using unterminated_rest_dropped [OF 6 7 8, of ChatTs sampleParse "''9 November 2026''"] 9
    by simp
  let ?j = \<open>''{"delta":"Hi"}''\<close>
  have 10: "newline \<notin> set ?j" by code_simp
  have 11: "concat [?j] = upstreamText [] ?j" by code_simp
  have 12: "flushFrames ChatTs sampleParse ''9 November 2026'' ?j \<noteq> []" by code_simp
  have 13: "flushFrames ChatTs sampleParse ''9 November 2026'' ?j
      = [deltaFrame ChatTs ''Hi'' ''9 November 2026'']" by code_simp
  have c: "relay ChatTs sampleParse ''9 November 2026'' [?j]
      = [] @ [deltaFrame ChatTs ''Hi'' ''9 November 2026''] @ [doneFrame]"
    using unterminated_rest_dropped [OF 6 10 11, of ChatTs sampleParse "''9 November 2026''"] 13
    by simp
  from a b c 4 9 12 show ?thesis by blast
qed

section \<open>The two variants\<close>









section \<open>The handler\<close>

lemma matchAlternatives_test: "matchAlternatives rx t \<Longrightarrow> test rx t"
  by (cases t) simp_all

lemma test_append: "matchAlternatives rx t \<Longrightarrow> test rx (a @ t)"
  by (induction a) (simp_all add: matchAlternatives_test)

lemma faqCost_pricing: "includes_str s ''pricing'' \<Longrightarrow> faqCost v s"
proof -
  assume "includes_str s ''pricing''"
  then obtain a b where s: "s = a @ ''pricing'' @ b" by (auto simp: includes_str_iff)
  have "matchAlternatives (faqCostPattern v) (''pricing'' @ b)"
    by (cases v) (simp_all add: lit_def)
  then show ?thesis unfolding faqCost_def s by (rule test_append)
qed

lemma faqText_empty: "faqText v txt [] = None"
  by (cases v) (simp_all add: faqText_def faqTime_def faqCost_def faqVisibilityPattern_def lit_def)

lemma lastText_Nil: "lastText [] = Inr []"
  by (simp add: lastText_def lastMessage_def toLowerCase_def)

lemma messagesOf_empty: "messagesOf (JObject []) = []" "messagesOf (JObject [(''messages'', JArray [])]) = []"
  by (simp_all add: messagesOf_def)

lemma modelOf_empty: "modelOf (JObject []) = JString ''gpt-4o-mini''"
  "modelOf (JObject [(''messages'', JArray [])]) = JString ''gpt-4o-mini''"
  by (simp_all add: modelOf_def)

lemma lastText_last: "lastText (ms @ [m]) = lastText [m]"
  by (simp add: lastText_def lastMessage_def)

lemma stringify_payload:
  \<open>stringify (buildPayload txt model msgs)
     = ''{"model":'' @ stringify model @ '',"stream":true,"messages":[''
       @ join_str (map stringify (JObject [(''role'', JString ''system''),
                                           (''content'', JString (SYSTEM_PROMPT txt))] # msgs)) '',''
       @ '']}''\<close>
  by (simp add: buildPayload_def systemTurn_def quoteJSON_def escapeChar_def dquote_def backslash_def)

lemma stringify_systemTurn:
  \<open>stringify (JObject [(''role'', JString ''system''), (''content'', JString p)])
     = ''{"role":"system","content":'' @ quoteJSON p @ ''}''\<close>
  by (simp add: quoteJSON_def escapeChar_def dquote_def backslash_def)

text \<open>
  C5, as the code has it. The body of every call of the completion API that the handler
  makes is the \<^verbatim>\<open>JSON.stringify\<close> text of the payload: its message list is the system
  turn, with the role \<^verbatim>\<open>system\<close> and the prompt as content, followed by the texts of
  the messages of the request body in their order, each as \<^verbatim>\<open>JSON.stringify\<close> prints
  it; and the handler makes that one call whenever the request is a POST, the key is
  set and no shortcut answers.
\<close>

theorem upstream_messages_system_first:
  assumes "jsonBody req = Some b" and "getProp (Some b) ''messages'' = Some (JArray msgs)"
  shows \<open>(\<forall>call\<in>set (snd (handler v txt w req)).
            sentBody call
              = ''{"model":'' @ stringify (modelOf b) @ '',"stream":true,"messages":[''
                @ join_str (map stringify (JObject [(''role'', JString ''system''),
                                                    (''content'', JString (SYSTEM_PROMPT txt))] # msgs)) '',''
                @ '']}'')
     \<and> (reqMethod req = ''POST'' \<and> OPENAI_API_KEY w = Some apiKey \<and> apiKey \<noteq> []
          \<and> lastText msgs = Inr last_text \<and> faqText v txt last_text = None
        \<longrightarrow> snd (handler v txt w req) = [buildCall txt apiKey (modelOf b) msgs])
     \<and> stringify (JObject [(''role'', JString ''system''), (''content'', JString (SYSTEM_PROMPT txt))])
          = ''{"role":"system","content":'' @ quoteJSON (SYSTEM_PROMPT txt) @ ''}''\<close>
proof -
  have m: "messagesOf b = msgs" using assms(2) by (simp add: messagesOf_def)
  have p: "sentBody (buildCall txt k (modelOf b) msgs) = stringify (buildPayload txt (modelOf b) msgs)" for k
    by (simp add: buildCall_def)
  have a: "\<forall>call\<in>set (snd (answer v txt w k b)).
      sentBody call = stringify (buildPayload txt (modelOf b) msgs)" for k
    using p by (auto simp: answer_def m Let_def split: sum.splits option.splits)
  have 1: "\<forall>call\<in>set (snd (handler v txt w req)).
      sentBody call = stringify (buildPayload txt (modelOf b) msgs)"
    using a by (auto simp: handler_def assms(1) split: option.splits)
  have 2: "snd (handler v txt w req) = [buildCall txt apiKey (modelOf b) msgs]"
    if "reqMethod req = ''POST'' \<and> OPENAI_API_KEY w = Some apiKey \<and> apiKey \<noteq> []
          \<and> lastText msgs = Inr last_text \<and> faqText v txt last_text = None"
    using that by (simp add: handler_def assms(1) answer_def m Let_def split: option.splits)
  from 1 2 show ?thesis
    unfolding stringify_payload stringify_systemTurn by blast
qed

theorem upstream_messages_system_first_witness:
  \<open>snd (handler Part000 sampleContent sampleWorld
      (postMessages [userTurn ''Hello'', assistantTurn ''Hi, what tools?'', userTurn ''Excel'']))
   = [\<lparr>url = ''https://api.openai.com/v1/chat/completions'', fetchMethod = ''POST'',
       authorization = ''Bearer sk-test'', contentType = ''application/json'',
       sentBody = ''{"model":"gpt-4o-mini","stream":true,"messages":[{"role":"system","content":"You are the Cloud29 Discovery AI Assistant."},{"role":"user","content":"Hello"},{"role":"assistant","content":"Hi, what tools?"},{"role":"user","content":"Excel"}]}''\<rparr>]\<close>
proof -
  let ?msgs = "[userTurn ''Hello'', assistantTurn ''Hi, what tools?'', userTurn ''Excel'']"
  let ?b = "JObject [(''messages'', JArray ?msgs)]"
  have 1: "jsonBody (postMessages ?msgs) = Some ?b" by (simp add: postMessages_def)
  have 2: "getProp (Some ?b) ''messages'' = Some (JArray ?msgs)" by simp
  have 3: "reqMethod (postMessages ?msgs) = ''POST'' \<and> OPENAI_API_KEY sampleWorld = Some ''sk-test''
      \<and> ''sk-test'' \<noteq> [] \<and> lastText ?msgs = Inr ''excel''
      \<and> faqText Part000 sampleContent ''excel'' = None"
    by code_simp
  have 4: \<open>buildCall sampleContent ''sk-test'' (modelOf ?b) ?msgs
      = \<lparr>url = ''https://api.openai.com/v1/chat/completions'', fetchMethod = ''POST'',
         authorization = ''Bearer sk-test'', contentType = ''application/json'',
         sentBody = ''{"model":"gpt-4o-mini","stream":true,"messages":[{"role":"system","content":"You are the Cloud29 Discovery AI Assistant."},{"role":"user","content":"Hello"},{"role":"assistant","content":"Hi, what tools?"},{"role":"user","content":"Excel"}]}''\<rparr>\<close>
    by code_simp
  have "snd (handler Part000 sampleContent sampleWorld (postMessages ?msgs))
      = [buildCall sampleContent ''sk-test'' (modelOf ?b) ?msgs]"
    using upstream_messages_system_first
      [OF 1 2, of Part000 sampleContent sampleWorld "''sk-test''" "''excel''"] 3
    by blast
  then show ?thesis unfolding 4 .
qed

text \<open>A caller turn that holds a number out of range (\<^verbatim>\<open>1e999\<close>, which \<^verbatim>\<open>req.json()\<close>
  reads as \<^verbatim>\<open>Infinity\<close>): it is sent with \<^verbatim>\<open>null\<close> in the number's place.\<close>

theorem nonfinite_number_sent_as_null:
  \<open>snd (handler Part000 sampleContent sampleWorld
      (postMessages [JObject [(''role'', JString ''user''), (''content'', JString ''Hello''),
                              (''weight'', JNumber ''Infinity'')]]))
   = [\<lparr>url = ''https://api.openai.com/v1/chat/completions'', fetchMethod = ''POST'',
       authorization = ''Bearer sk-test'', contentType = ''application/json'',
       sentBody = ''{"model":"gpt-4o-mini","stream":true,"messages":[{"role":"system","content":"You are the Cloud29 Discovery AI Assistant."},{"role":"user","content":"Hello","weight":null}]}''\<rparr>]\<close>
  by code_simp

text \<open>
  C6, as the code has it. A POST request, with the key set, whose last message text
  matches the cost pattern and not the time pattern is answered by one delta frame with
  the cost text and then the sentinel, with no call of the completion API. (The time
  pattern is tested first; a text that matches both gets the time text, see below.)
\<close>

theorem cost_shortcut:
  assumes "reqMethod req = ''POST''" and "OPENAI_API_KEY w = Some apiKey" and "apiKey \<noteq> []"
    and "lastText (messagesOf (case jsonBody req of None \<Rightarrow> JObject [] | Some parsed \<Rightarrow> parsed))
         = Inr last_text"
    and "faqCost v last_text" and "\<not> faqTime v last_text"
  shows "handler v txt w req
     = (Inr (streamResponse [sseLine (JObject [(''delta'', JString (costText txt))]), doneFrame]), [])"
  using assms by (simp add: handler_def answer_def faqText_def doneFrame_def)

theorem cost_shortcut_witness:
  "handler ChatTs sampleContent sampleWorld (postMessages [userTurn ''Pricing?''])
     = (Inr (streamResponse [sseLine (JObject [(''delta'', JString ''There are two costs: installation and license fee.'')]), doneFrame]), [])"
proof -
  let ?req = "postMessages [userTurn ''Pricing?'']"
  have 1: "reqMethod ?req = ''POST''" by (simp add: postMessages_def)
  have 2: "OPENAI_API_KEY sampleWorld = Some ''sk-test''" by (simp add: sampleWorld_def)
  have 3: "''sk-test'' \<noteq> []" by simp
  have 4: "lastText (messagesOf (case jsonBody ?req of None \<Rightarrow> JObject [] | Some parsed \<Rightarrow> parsed))
         = Inr ''pricing?''" by code_simp
  have "includes_str ''pricing?'' ''pricing''" by simp
  then have 5: "faqCost ChatTs ''pricing?''" by (rule faqCost_pricing)
  have 6: "\<not> faqTime ChatTs ''pricing?''" by code_simp
  have 7: "costText sampleContent = ''There are two costs: installation and license fee.''"
    by (simp add: sampleContent_def)
  show ?thesis
    using cost_shortcut [OF 1 2 3 4 5 6, of sampleContent] unfolding 7 .
qed

text \<open>A last message that matches the cost pattern and the time pattern is answered
  with the time text.\<close>

theorem time_pattern_wins:
  "lastText [userTurn ''price, how long''] = Inr ''price, how long''
   \<and> faqCost ChatTs ''price, how long''
   \<and> handler ChatTs sampleContent sampleWorld (postMessages [userTurn ''price, how long''])
      = (Inr (streamResponse
           [sseLine (JObject [(''delta'', JString ''On average, it takes 7 to 10 days to build your demo.'')]),
            doneFrame]), [])"
  by code_simp

text \<open>
  C7, as the code has it. The text tested against the patterns is that of the last entry
  of the message list, whatever its role: the entries before it play no part, neither in
  the text nor in whether the completion API is called.
\<close>

theorem shortcut_reads_last_entry:
  "lastText (ms @ [m]) = lastText [m]
   \<and> lastText (ms @ [JObject [(''role'', r), (''content'', JString s)]]) = Inr (toLowerCase s)
   \<and> lastText [] = Inr []
   \<and> (snd (handler v txt w (postMessages (ms @ [m]))) = [])
       = (snd (handler v txt w (postMessages [m])) = [])"
proof -
  have a: "(snd (answer v txt w k (JObject [(''messages'', JArray (ms @ [m]))])) = [])
      = (snd (answer v txt w k (JObject [(''messages'', JArray [m])])) = [])" for k
    by (simp add: answer_def messagesOf_def lastText_last Let_def split: sum.splits option.splits)
  have "(snd (handler v txt w (postMessages (ms @ [m]))) = [])
       = (snd (handler v txt w (postMessages [m])) = [])"
    using a by (simp add: handler_def postMessages_def split: option.splits)
  then show ?thesis
    by (simp add: lastText_def lastMessage_def toLowerCase_def)
qed

text \<open>A conversation that ends with an assistant turn: the user's question about the
  pricing is not looked at, and the request goes to the completion API.\<close>

theorem last_entry_not_user:
  "lastText [userTurn ''pricing'', assistantTurn ''Sure''] = Inr ''sure''
   \<and> faqText Part000 sampleContent ''sure'' = None
   \<and> faqText Part000 sampleContent ''pricing'' = Some (costText sampleContent)
   \<and> handler Part000 sampleContent sampleWorld (postMessages [userTurn ''pricing'', assistantTurn ''Sure''])
      = (Inr (streamResponse [''data: {\"delta\":\"Hi\"}\<newline>\<newline>'', doneFrame, doneFrame]),
         [buildCall sampleContent ''sk-test'' (JString ''gpt-4o-mini'') [userTurn ''pricing'', assistantTurn ''Sure'']])"
  by code_simp

text \<open>
  C8. A request whose body does not parse is handled as one with an empty message list
  and no model: for a POST with the key set, the handler calls the completion API with
  the default model and the system turn alone, and answers with what comes back.
\<close>

theorem unparsable_body_as_empty:
  "handler v txt w \<lparr>reqMethod = m, jsonBody = None\<rparr>
     = handler v txt w \<lparr>reqMethod = m, jsonBody = Some (JObject [(''messages'', JArray [])])\<rparr>
   \<and> (m = ''POST'' \<and> OPENAI_API_KEY w = Some apiKey \<and> apiKey \<noteq> [] \<longrightarrow>
        handler v txt w \<lparr>reqMethod = m, jsonBody = None\<rparr>
          = (case fetch w (buildCall txt apiKey (JString ''gpt-4o-mini'') []) of
               None \<Rightarrow> (Inl FetchRejected, [buildCall txt apiKey (JString ''gpt-4o-mini'') []])
             | Some up \<Rightarrow> (Inr (relayResponse v w up), [buildCall txt apiKey (JString ''gpt-4o-mini'') []])))"
proof -
  have a: "answer v txt w k (JObject [])
      = (case fetch w (buildCall txt k (JString ''gpt-4o-mini'') []) of
               None \<Rightarrow> (Inl FetchRejected, [buildCall txt k (JString ''gpt-4o-mini'') []])
             | Some up \<Rightarrow> (Inr (relayResponse v w up), [buildCall txt k (JString ''gpt-4o-mini'') []]))" for k
    by (simp add: answer_def messagesOf_empty modelOf_empty lastText_Nil faqText_empty Let_def)
  have b: "answer v txt w k (JObject [(''messages'', JArray [])]) = answer v txt w k (JObject [])" for k
    by (simp add: answer_def messagesOf_empty modelOf_empty lastText_Nil faqText_empty Let_def)
  have 1: "handler v txt w \<lparr>reqMethod = m, jsonBody = None\<rparr>
     = handler v txt w \<lparr>reqMethod = m, jsonBody = Some (JObject [(''messages'', JArray [])])\<rparr>"
    by (simp add: handler_def b split: option.splits)
  have 2: "handler v txt w \<lparr>reqMethod = m, jsonBody = None\<rparr>
          = (case fetch w (buildCall txt apiKey (JString ''gpt-4o-mini'') []) of
               None \<Rightarrow> (Inl FetchRejected, [buildCall txt apiKey (JString ''gpt-4o-mini'') []])
             | Some up \<Rightarrow> (Inr (relayResponse v w up), [buildCall txt apiKey (JString ''gpt-4o-mini'') []]))"
    if "m = ''POST'' \<and> OPENAI_API_KEY w = Some apiKey \<and> apiKey \<noteq> []"
    using that by (simp add: handler_def a)
  from 1 2 show ?thesis by blast
qed

theorem unparsable_body_as_empty_witness:
  "handler Part000 sampleContent sampleWorld \<lparr>reqMethod = ''POST'', jsonBody = None\<rparr>
     = (Inr (streamResponse [''data: {\"delta\":\"Hi\"}\<newline>\<newline>'', doneFrame, doneFrame]),
        [buildCall sampleContent ''sk-test'' (JString ''gpt-4o-mini'') []])"
proof -
  have 1: "''POST'' = ''POST'' \<and> OPENAI_API_KEY sampleWorld = Some ''sk-test'' \<and> ''sk-test'' \<noteq> []"
    by (simp add: sampleWorld_def)
  have 2: "fetch sampleWorld (buildCall sampleContent ''sk-test'' (JString ''gpt-4o-mini'') []) = Some sampleUpstream"
    by (simp add: sampleWorld_def)
  have 3: "relayResponse Part000 sampleWorld sampleUpstream
      = streamResponse [''data: {\"delta\":\"Hi\"}\<newline>\<newline>'', doneFrame, doneFrame]"
    by code_simp
  have "handler Part000 sampleContent sampleWorld \<lparr>reqMethod = ''POST'', jsonBody = None\<rparr>
      = (case fetch sampleWorld (buildCall sampleContent ''sk-test'' (JString ''gpt-4o-mini'') []) of
           None \<Rightarrow> (Inl FetchRejected, [buildCall sampleContent ''sk-test'' (JString ''gpt-4o-mini'') []])
         | Some up \<Rightarrow> (Inr (relayResponse Part000 sampleWorld up),
                      [buildCall sampleContent ''sk-test'' (JString ''gpt-4o-mini'') []]))"
    using unparsable_body_as_empty [of Part000 sampleContent sampleWorld "''POST''" "''sk-test''"] 1
    by blast
  then show ?thesis
    by (simp only: 2 3 option.case)
qed

end
